theory Spec2Isabelle
  imports Complex_Main "HOL-Library.Multiset" "HOL-Library.Product_Lexorder" "HOL-Library.AList"
begin

section \<open>Data model\<close>

text \<open>
  The script \<^verbatim>\<open>scripts/attention_weights.py\<close> has two functions: \<^verbatim>\<open>extract_data\<close>
  folds the batches of a data loader into element-by-element matrices, and
  \<^verbatim>\<open>visualize\<close> smooths the attention of one element pair over the distance.

  Conventions of the embedding:
  \<^item> a one-dimensional tensor is a list; a tensor of shape \<open>2 \<times> N\<close> (an index tensor, a
    stack of two rows) is the list of its \<open>N\<close> columns, each a pair;
  \<^item> a float is a \<open>real\<close>: rounding is not modelled, so a value that the program
    computes up to rounding is computed exactly here;
  \<^item> an exception is a value \<open>Inl e\<close> of the sum type \<open>error + 'a\<close>;
  \<^item> the model, the data loader, the bond guesser and the attention collector
    \<^verbatim>\<open>torchmdnet.attention_weights\<close> are not part of the script: what they hand to
    the loop body is the content of a \<open>batch\<close>;
  \<^item> the distances of line 121 are square roots over \<^verbatim>\<open>batch.pos\<close>; they go
    through lines 147 and 151 untouched and are read again by \<^verbatim>\<open>visualize\<close> only, so
    they are an input of the distance curve below and not a field of the loop.
\<close>

text \<open>The exceptions. \<open>EmptyCat\<close> and \<open>ShapeError\<close> are both Python's
  \<^verbatim>\<open>RuntimeError\<close>: the first is raised by \<^verbatim>\<open>torch.cat\<close> on an empty list, the second
  by \<^verbatim>\<open>reshape\<close> on a shape that does not fit.\<close>

datatype error = IndexError | EmptyCat | ShapeError | KeyError

text \<open>
  One iteration's input. \<open>z\<close> is \<^verbatim>\<open>batch.z\<close>,
  \<open>edge_index\<close> is \<^verbatim>\<open>batch.edge_index\<close> once the bonds are known, and \<open>rollout\<close> is
  what the collector holds for this batch after the forward pass: column \<open>k\<close> of
  \<^verbatim>\<open>rollout_index[-1]\<close> together with entry \<open>k\<close> of the weights it appended to
  \<^verbatim>\<open>rollout_weights\<close>.
\<close>

record batch =
  z :: "int list"
  edge_index :: "(nat \<times> nat) list"
  rollout :: "(nat \<times> nat \<times> real) list"

text \<open>The variables the loop of \<^verbatim>\<open>extract_data\<close> appends to (lines 43-45), and the
  collector's list \<^verbatim>\<open>attention_weights.rollout_weights\<close>.\<close>

record loop_state =
  zs_0 :: "int list list"
  zs_1 :: "int list list"
  zs_0_ref :: "int list list"
  zs_1_ref :: "int list list"
  atoms_per_elem :: "(int \<times> int) list"
  rollout_weights :: "real list list"

text \<open>The tuple pickled at line 151, in its order and without its last component
  \<^verbatim>\<open>dist\<close>. The field \<open>counts_ref_square\<close> is read back as \<^verbatim>\<open>probs_ref\<close>,
  \<open>attn\<close> as \<^verbatim>\<open>weights\<close>, \<open>atoms\<close> is \<^verbatim>\<open>atoms_per_elem\<close>.\<close>

record snapshot =
  zs :: "int list"
  attn :: "real list list"
  zs_ref :: "int list"
  counts_ref_square :: "real list list"
  atoms :: "(int \<times> int) list"
  zs_full :: "(int \<times> int) list"
  attn_full :: "real list"

section \<open>Tensor operations used by the script\<close>

text \<open>\<^verbatim>\<open>torch.unique\<close> (sorted): the distinct values in ascending order. With
  \<^verbatim>\<open>dim=1\<close> on a \<open>2 \<times> N\<close> tensor the values are the columns, ordered
  lexicographically with the first row as the major key.\<close>

definition unique :: "'a::linorder list \<Rightarrow> 'a list" where
  "unique xs = sort (remdups xs)"

fun index_of :: "'a list \<Rightarrow> 'a \<Rightarrow> nat" where
  "index_of [] x = 0"
| "index_of (y # ys) x = (if x = y then 0 else Suc (index_of ys x))"

text \<open>\<^verbatim>\<open>return_inverse=True\<close>: for every input column its position among the
  unique columns. \<^verbatim>\<open>return_counts=True\<close>: how often each unique column occurs.\<close>

definition inverse_indices :: "'a::linorder list \<Rightarrow> nat list" where
  "inverse_indices xs = map (index_of (unique xs)) xs"

definition unique_counts :: "'a::linorder list \<Rightarrow> nat list" where
  "unique_counts xs = map (count_list xs) (unique xs)"

text \<open>\<^verbatim>\<open>t[idx]\<close> with an index tensor: an index past the end raises.\<close>

definition gather :: "'a list \<Rightarrow> nat list \<Rightarrow> error + 'a list" where
  "gather xs idx =
     (if list_all (\<lambda>i. i < length xs) idx then Inr (map ((!) xs) idx) else Inl IndexError)"

text \<open>\<^verbatim>\<open>torch.cat\<close> of a Python list of tensors: the empty list is refused.\<close>

definition cat :: "'a list list \<Rightarrow> error + 'a list" where
  "cat ts = (if ts = [] then Inl EmptyCat else Inr (concat ts))"

text \<open>\<^verbatim>\<open>reshape\<close> of a tensor given by its row-major entries: the number of
  entries must be the product of the new shape.\<close>

definition reshape2 :: "'a list \<Rightarrow> nat \<Rightarrow> nat \<Rightarrow> error + 'a list list" where
  "reshape2 xs r c =
     (if length xs = r * c
      then Inr (map (\<lambda>i. map (\<lambda>j. xs ! (i * c + j)) [0..<c]) [0..<r])
      else Inl ShapeError)"

definition reshape3 :: "'a list \<Rightarrow> nat \<Rightarrow> nat \<Rightarrow> nat \<Rightarrow> error + 'a list list list" where
  "reshape3 xs a r c =
     (if length xs = a * r * c
      then Inr (map (\<lambda>h. map (\<lambda>i. map (\<lambda>j. xs ! ((h * r + i) * c + j)) [0..<c]) [0..<r]) [0..<a])
      else Inl ShapeError)"

text \<open>\<^verbatim>\<open>t[i]\<close> with an integer.\<close>

definition item :: "'a list \<Rightarrow> nat \<Rightarrow> error + 'a" where
  "item xs i = (if i < length xs then Inr (xs ! i) else Inl IndexError)"

text \<open>\<^verbatim>\<open>torch_scatter.scatter(src, index, dim=0, reduce='mean')\<close> for \<open>src\<close> and
  \<open>index\<close> of one length: the output has one entry per index value up to the largest,
  the sum of the entries of \<open>src\<close> sent there divided by their number, where a number
  of zero is replaced by one.\<close>

definition scatter_mean :: "real list \<Rightarrow> nat list \<Rightarrow> real list" where
  "scatter_mean src index =
     map (\<lambda>k. let sel = map fst (filter (\<lambda>(v, i). i = k) (zip src index))
              in sum_list sel / real (max 1 (length sel)))
         [0..<(if index = [] then 0 else Suc (fold max index 0))]"

text \<open>\<^verbatim>\<open>torch.zeros(r, c)\<close> and the assignment \<^verbatim>\<open>m[rows, cols] = vals\<close>.\<close>

definition zeros :: "nat \<Rightarrow> nat \<Rightarrow> real list list" where
  "zeros r c = replicate r (replicate c 0)"

definition index_put :: "real list list \<Rightarrow> (nat \<times> nat) list \<Rightarrow> real list \<Rightarrow> error + real list list" where
  "index_put m idx vals =
     (if list_all (\<lambda>(i, j). i < length m \<and> j < length (m ! i)) idx
      then Inr (foldl (\<lambda>m' ((i, j), v). m'[i := (m' ! i)[j := v]]) m (zip idx vals))
      else Inl IndexError)"

section \<open>The loop of \<open>extract_data\<close>\<close>

text \<open>Lines 116-119: for every element of the batch, create its entry at zero when it
  is new, then add the number of atoms of that element. The dictionary is an association
  list in insertion order.\<close>

definition count_elem :: "int list \<Rightarrow> (int \<times> int) list \<Rightarrow> int \<Rightarrow> (int \<times> int) list" where
  "count_elem zb d elem =
     (let d' = (if elem \<notin> fst ` set d then AList.update elem 0 d else d)
      in AList.map_entry elem (\<lambda>v. v + int (count_list zb elem)) d')"

definition count_atoms :: "(int \<times> int) list \<Rightarrow> int list \<Rightarrow> (int \<times> int) list" where
  "count_atoms d zb = foldl (count_elem zb) d (unique zb)"

text \<open>Lines 110-119, one iteration (the drawing of molecules has no effect on the
  variables).\<close>

definition batch_step :: "loop_state \<Rightarrow> batch \<Rightarrow> error + loop_state" where
  "batch_step s b =
     (case gather (z b) (map fst (rollout b)) of Inl e \<Rightarrow> Inl e | Inr g0 \<Rightarrow>
      case gather (z b) (map (fst \<circ> snd) (rollout b)) of Inl e \<Rightarrow> Inl e | Inr g1 \<Rightarrow>
      case gather (z b) (map fst (edge_index b)) of Inl e \<Rightarrow> Inl e | Inr r0 \<Rightarrow>
      case gather (z b) (map snd (edge_index b)) of Inl e \<Rightarrow> Inl e | Inr r1 \<Rightarrow>
        Inr \<lparr> zs_0 = zs_0 s @ [g0], zs_1 = zs_1 s @ [g1],
              zs_0_ref = zs_0_ref s @ [r0], zs_1_ref = zs_1_ref s @ [r1],
              atoms_per_elem = count_atoms (atoms_per_elem s) (z b),
              rollout_weights = rollout_weights s @ [map (snd \<circ> snd) (rollout b)] \<rparr>)"

fun run_batches :: "loop_state \<Rightarrow> batch list \<Rightarrow> error + loop_state" where
  "run_batches s [] = Inr s"
| "run_batches s (b # bs) =
     (case batch_step s b of Inl e \<Rightarrow> Inl e | Inr s' \<Rightarrow> run_batches s' bs)"

definition init_state :: loop_state where
  "init_state = \<lparr> zs_0 = [], zs_1 = [], zs_0_ref = [], zs_1_ref = [],
                  atoms_per_elem = [], rollout_weights = [] \<rparr>"

section \<open>After the loop\<close>

text \<open>Lines 124-128, "compute attention weight scatter indices". \<open>zf\<close> is
  \<^verbatim>\<open>zs_full\<close>, the stack of the concatenated source and target elements. Its flattened
  values give \<open>n_elements\<close>; its unique columns, as a \<open>2 \<times> P\<close> tensor with row-major
  entries "the P sources, then the P targets", are reshaped to \<open>2 \<times> n \<times> n\<close>, and
  \<^verbatim>\<open>zs[1,0]\<close> is kept.\<close>

definition scatter_indices :: "(int \<times> int) list \<Rightarrow> error + (nat \<times> int list \<times> nat list)" where
  "scatter_indices zf =
     (let n_elements = length (unique (map fst zf @ map snd zf));
          u = unique zf;
          index = inverse_indices zf
      in case reshape3 (map fst u @ map snd u) 2 n_elements n_elements of
           Inl e \<Rightarrow> Inl e
         | Inr t \<Rightarrow>
             (case item t 1 of
                Inl e \<Rightarrow> Inl e
              | Inr t1 \<Rightarrow>
                  (case item t1 0 of
                     Inl e \<Rightarrow> Inl e
                   | Inr zs' \<Rightarrow> Inr (n_elements, zs', index))))"

text \<open>Lines 131-133, "reduce attention weights to elemental interactions".\<close>

definition reduce_attention :: "nat \<Rightarrow> nat list \<Rightarrow> real list \<Rightarrow> error + real list list" where
  "reduce_attention n_elements index af =
     reshape2 (scatter_mean af index) n_elements n_elements"

text \<open>Line 140, one iteration: the counts of the columns whose source is \<open>elem\<close> are
  divided, in place, by their sum. Where no column is selected nothing is divided.\<close>

definition row_total :: "(int \<times> int) list \<Rightarrow> real list \<Rightarrow> int \<Rightarrow> real" where
  "row_total u counts elem =
     sum_list (map snd (filter (\<lambda>(p, c). fst p = elem) (zip u counts)))"

definition normalize_row :: "(int \<times> int) list \<Rightarrow> real list \<Rightarrow> int \<Rightarrow> real list" where
  "normalize_row u counts elem =
     map (\<lambda>(p, c). if fst p = elem then c / row_total u counts elem else c) (zip u counts)"

text \<open>Line 142: every entry of the unique reference columns is sent through the
  dictionary \<open>z2idx\<close>; a key it does not have raises.\<close>

definition apply_z2idx :: "(int \<times> nat) list \<Rightarrow> (int \<times> int) list \<Rightarrow> error + (nat \<times> nat) list" where
  "apply_z2idx z2idx u =
     (case those (map (\<lambda>(a, b). case (map_of z2idx a, map_of z2idx b) of
                                   (Some i, Some j) \<Rightarrow> Some (i, j)
                                 | _ \<Rightarrow> None) u) of
        None \<Rightarrow> Inl KeyError
      | Some idx \<Rightarrow> Inr idx)"

text \<open>Lines 136-145, "compute bond probabilities from the data". \<open>rf\<close> is the stack of
  the concatenated reference sources and targets.\<close>

definition bond_probabilities ::
  "(int \<times> int) list \<Rightarrow> nat \<Rightarrow> (int \<times> int) list \<Rightarrow> error + (int list \<times> real list list)" where
  "bond_probabilities zf n_elements rf =
     (let u = unique rf;
          counts_ref = map real (unique_counts rf);
          counts_ref' = foldl (normalize_row u) counts_ref (unique (map fst u @ map snd u));
          keys = sort (unique (map fst zf @ map snd zf));
          z2idx = zip keys [0..<length keys]
      in case apply_z2idx z2idx u of
           Inl e \<Rightarrow> Inl e
         | Inr index_ref \<Rightarrow>
             (case index_put (zeros n_elements n_elements) index_ref counts_ref' of
                Inl e \<Rightarrow> Inl e
              | Inr sq \<Rightarrow> Inr (unique (map fst u), sq)))"

text \<open>The function: the loop, then lines 124-145, in the order of the statements.\<close>

definition extract_data :: "batch list \<Rightarrow> error + snapshot" where
  "extract_data bs =
     (case run_batches init_state bs of
        Inl e \<Rightarrow> Inl e
      | Inr s \<Rightarrow>
     (case cat (zs_0 s) of Inl e \<Rightarrow> Inl e | Inr c0 \<Rightarrow>
     (case cat (zs_1 s) of Inl e \<Rightarrow> Inl e | Inr c1 \<Rightarrow>
     (case scatter_indices (zip c0 c1) of Inl e \<Rightarrow> Inl e | Inr (n_elements, zs', index) \<Rightarrow>
     (case cat (rollout_weights s) of Inl e \<Rightarrow> Inl e | Inr af \<Rightarrow>
     (case reduce_attention n_elements index af of Inl e \<Rightarrow> Inl e | Inr attn' \<Rightarrow>
     (case cat (zs_0_ref s) of Inl e \<Rightarrow> Inl e | Inr r0 \<Rightarrow>
     (case cat (zs_1_ref s) of Inl e \<Rightarrow> Inl e | Inr r1 \<Rightarrow>
     (case bond_probabilities (zip c0 c1) n_elements (zip r0 r1) of
        Inl e \<Rightarrow> Inl e
      | Inr (zs_ref', sq) \<Rightarrow>
        Inr \<lparr> zs = zs', attn = attn', zs_ref = zs_ref', counts_ref_square = sq,
              atoms = atoms_per_elem s, zs_full = zip c0 c1, attn_full = af \<rparr>)))))))))"

section \<open>The distance curve of \<open>visualize\<close>\<close>

text \<open>\<^verbatim>\<open>t[mask]\<close> with a boolean tensor: the shapes must agree.\<close>

definition bool_mask :: "'a list \<Rightarrow> bool list \<Rightarrow> error + 'a list" where
  "bool_mask xs m =
     (if length m = length xs then Inr (map fst (filter snd (zip xs m))) else Inl IndexError)"

text \<open>\<^verbatim>\<open>torch.argsort\<close> is called with its default \<^verbatim>\<open>stable=False\<close>. What the library
  promises then is a permutation of the positions that puts the values in ascending
  order; which of two equal values comes first is left open. The function is a parameter
  of the model, and \<open>argsort_ok\<close> is that promise.\<close>

definition argsort_ok :: "(real list \<Rightarrow> nat list) \<Rightarrow> bool" where
  "argsort_ok argsort =
     (\<forall>ds. mset (argsort ds) = mset [0..<length ds] \<and> sorted (map ((!) ds) (argsort ds)))"

text \<open>\<^verbatim>\<open>pandas.Series.rolling(w).mean()\<close>: position \<open>k\<close> holds the mean of the \<open>w\<close>
  entries that end at \<open>k\<close>, and is missing while fewer than \<open>w\<close> entries are there (or
  when \<open>w = 0\<close>). \<^verbatim>\<open>Series.shift(-w)\<close>: position \<open>k\<close> takes the entry of position
  \<open>k + w\<close>, and is missing past the end. A missing entry (NaN) is \<open>None\<close>.\<close>

definition rolling_mean :: "nat \<Rightarrow> real list \<Rightarrow> real option list" where
  "rolling_mean w xs =
     map (\<lambda>k. if 0 < w \<and> w \<le> Suc k
              then Some (sum_list (take w (drop (Suc k - w) xs)) / real w)
              else None)
         [0..<length xs]"

definition shift_left :: "nat \<Rightarrow> 'a option list \<Rightarrow> 'a option list" where
  "shift_left w ys =
     map (\<lambda>k. if k + w < length ys then ys ! (k + w) else None) [0..<length ys]"

text \<open>The chain \<^verbatim>\<open>.rolling(ma_width).mean().shift(-ma_width).values\<close> of line 220.\<close>

definition averaged :: "nat \<Rightarrow> real list \<Rightarrow> real option list" where
  "averaged ma_width xs = shift_left ma_width (rolling_mean ma_width xs)"

text \<open>Lines 214-221 with the constants \<^verbatim>\<open>z1\<close>, \<^verbatim>\<open>z2\<close> and \<^verbatim>\<open>ma_width\<close> as
  parameters: the result is the list of points handed to \<^verbatim>\<open>ax.scatter\<close>, the sorted
  distances with the averaged attention.\<close>

definition pair_mask :: "int \<Rightarrow> int \<Rightarrow> (int \<times> int) list \<Rightarrow> bool list" where
  "pair_mask z1 z2 zf = map (\<lambda>(a, b). (a = z1 \<and> b = z2) \<or> (a = z2 \<and> b = z1)) zf"

definition smooth ::
  "(real list \<Rightarrow> nat list) \<Rightarrow> int \<Rightarrow> int \<Rightarrow> nat \<Rightarrow>
     (int \<times> int) list \<Rightarrow> real list \<Rightarrow> real list \<Rightarrow> error + (real \<times> real option) list" where
  "smooth argsort z1 z2 ma_width zf af ds =
     (let mask = pair_mask z1 z2 zf
      in case bool_mask af mask of
           Inl e \<Rightarrow> Inl e
         | Inr am \<Rightarrow>
             (case bool_mask ds mask of
                Inl e \<Rightarrow> Inl e
              | Inr dm \<Rightarrow>
                  (case gather am (argsort dm) of
                     Inl e \<Rightarrow> Inl e
                   | Inr sorted_attn \<Rightarrow>
                       Inr (zip (sort dm) (averaged ma_width sorted_attn)))))"

section \<open>Notions the properties are stated with\<close>

text \<open>The edges of the specification. An attention edge is a column of the rollout
  index with its weight, read through \<^verbatim>\<open>batch.z\<close>: source element, target element,
  weight. A reference edge is a column of \<^verbatim>\<open>batch.edge_index\<close>, read the same way.
  Both lists keep duplicates, in the order of the batches.\<close>

definition batch_edges :: "batch \<Rightarrow> ((int \<times> int) \<times> real) list" where
  "batch_edges b = map (\<lambda>(i, j, w). ((z b ! i, z b ! j), w)) (rollout b)"

definition batch_reference_edges :: "batch \<Rightarrow> (int \<times> int) list" where
  "batch_reference_edges b = map (\<lambda>(i, j). (z b ! i, z b ! j)) (edge_index b)"

definition edges :: "batch list \<Rightarrow> ((int \<times> int) \<times> real) list" where
  "edges bs = concat (map batch_edges bs)"

definition reference_edges :: "batch list \<Rightarrow> (int \<times> int) list" where
  "reference_edges bs = concat (map batch_reference_edges bs)"

text \<open>A batch whose index tensors point at atoms of the batch.\<close>

definition batch_ok :: "batch \<Rightarrow> bool" where
  "batch_ok b =
     (list_all (\<lambda>(i, j, w). i < length (z b) \<and> j < length (z b)) (rollout b) \<and>
      list_all (\<lambda>(i, j). i < length (z b) \<and> j < length (z b)) (edge_index b))"

text \<open>The element ids at the end points of a list of element pairs, and the weights
  of the edges of one ordered element pair, duplicates included.\<close>

definition endpoints :: "(int \<times> int) list \<Rightarrow> int list" where
  "endpoints ps = map fst ps @ map snd ps"

definition pair_weights :: "((int \<times> int) \<times> real) list \<Rightarrow> int \<Rightarrow> int \<Rightarrow> real list" where
  "pair_weights es a b = map snd (filter (\<lambda>(p, w). p = (a, b)) es)"

definition mean :: "real list \<Rightarrow> real" where
  "mean ws = sum_list ws / real (length ws)"

text \<open>The sorted distinct element ids at the end points of the attention edges.\<close>

definition elements :: "batch list \<Rightarrow> int list" where
  "elements bs = unique (endpoints (map fst (edges bs)))"

text \<open>The divisors of the loop of lines 139-140, in the order of the iterations: an
  iteration whose mask selects at least one column divides by the sum of the selected
  counts as they are at that moment; an iteration whose mask selects nothing divides
  nothing.\<close>

fun divisors :: "(int \<times> int) list \<Rightarrow> real list \<Rightarrow> int list \<Rightarrow> real list" where
  "divisors u counts [] = []"
| "divisors u counts (elem # elems) =
     (if list_ex (\<lambda>p. fst p = elem) u then [row_total u counts elem] else []) @
     divisors u (normalize_row u counts elem) elems"

text \<open>The element set and the two matrices of a snapshot, with the support of the
  second.\<close>

definition outputs :: "snapshot \<Rightarrow> int list \<times> real list list \<times> int list \<times> real list list" where
  "outputs r = (zs r, attn r, zs_ref r, counts_ref_square r)"

text \<open>The samples of the distance curve: attention weight and distance of the edges
  whose unordered element pair is \<open>{z1, z2}\<close>, in the order of the edges.\<close>

definition selected ::
  "int \<Rightarrow> int \<Rightarrow> (int \<times> int) list \<Rightarrow> real list \<Rightarrow> real list \<Rightarrow> (real \<times> real) list" where
  "selected z1 z2 zf af ds =
     map snd (filter (\<lambda>(p, s). {fst p, snd p} = {z1, z2}) (zip zf (zip af ds)))"

text \<open>The samples in the order in which line 220 reads them: sample \<open>k\<close> of the curve is
  the selected sample at position \<open>argsort(dist[mask])[k]\<close>.\<close>

definition ordered :: "(real list \<Rightarrow> nat list) \<Rightarrow> (real \<times> real) list \<Rightarrow> (real \<times> real) list" where
  "ordered argsort sel = map ((!) sel) (argsort (map snd sel))"

text \<open>The smoothing as the specification words it. \<open>forward_mean w xs k\<close> is the mean of
  the \<open>w\<close> samples that start at position \<open>k\<close>, missing when fewer than \<open>w\<close> are left.
  \<open>centered_mean\<close> reports at position \<open>k\<close> the forward mean that starts \<open>w div 2\<close>
  positions before \<open>k\<close>, so that the window lies around the sample's own position; it
  is missing where that start would lie before the first sample.\<close>

definition forward_mean :: "nat \<Rightarrow> real list \<Rightarrow> nat \<Rightarrow> real option" where
  "forward_mean w xs k =
     (if 0 < w \<and> k + w \<le> length xs then Some (sum_list (take w (drop k xs)) / real w)
      else None)"

definition centered_mean :: "nat \<Rightarrow> real list \<Rightarrow> real option list" where
  "centered_mean w xs =
     map (\<lambda>k. if w div 2 \<le> k then forward_mean w xs (k - w div 2) else None) [0..<length xs]"

text \<open>Two functions that keep the promise \<open>argsort_ok\<close>: one leaves equal values in
  their order, the other reverses them.\<close>

definition stable_argsort :: "real list \<Rightarrow> nat list" where
  "stable_argsort ds = sort_key (\<lambda>i. ds ! i) [0..<length ds]"

definition tie_reversing_argsort :: "real list \<Rightarrow> nat list" where
  "tie_reversing_argsort ds = sort_key (\<lambda>i. ds ! i) (rev [0..<length ds])"

text \<open>The library's sort for \<^verbatim>\<open>stable=False\<close> on the CPU is \<^verbatim>\<open>std::sort\<close> over the pairs
  of value and position. Up to 16 entries that is an insertion sort, which leaves equal
  values in their order. From 17 entries on it starts with a partition round that
  exchanges entries across the pivot from both ends; on distances that arrive in
  descending order the exchanges turn the whole sequence round, the equal values with it.
  \<open>partitioning_argsort\<close> keeps the promise, agrees with the insertion sort up to 16
  entries, and turns equal values round beyond.\<close>

definition partitioning_argsort :: "real list \<Rightarrow> nat list" where
  "partitioning_argsort ds =
     (if length ds \<le> 16 then stable_argsort ds else tie_reversing_argsort ds)"

text \<open>The value of a dictionary entry, zero for a missing key.\<close>

definition lookup0 :: "(int \<times> int) list \<Rightarrow> int \<Rightarrow> int" where
  "lookup0 d k = (case map_of d k of None \<Rightarrow> 0 | Some v \<Rightarrow> v)"

section \<open>The function in closed form\<close>

text \<open>The state after one iteration that raises nothing, and lines 124-145 as a
  function of the three stacked tensors and the dictionary. The lemmas
  \<open>batch_step_eq\<close> and \<open>extract_data_eq\<close> below show that \<open>extract_data\<close> is these.\<close>

definition after_batch :: "loop_state \<Rightarrow> batch \<Rightarrow> loop_state" where
  "after_batch s b =
     \<lparr> zs_0 = zs_0 s @ [map (fst \<circ> fst) (batch_edges b)],
       zs_1 = zs_1 s @ [map (snd \<circ> fst) (batch_edges b)],
       zs_0_ref = zs_0_ref s @ [map fst (batch_reference_edges b)],
       zs_1_ref = zs_1_ref s @ [map snd (batch_reference_edges b)],
       atoms_per_elem = count_atoms (atoms_per_elem s) (z b),
       rollout_weights = rollout_weights s @ [map snd (batch_edges b)] \<rparr>"

definition aggregate ::
  "(int \<times> int) list \<Rightarrow> real list \<Rightarrow> (int \<times> int) list \<Rightarrow> (int \<times> int) list \<Rightarrow> error + snapshot" where
  "aggregate zf af rf d =
     (case scatter_indices zf of
        Inl e \<Rightarrow> Inl e
      | Inr (n_elements, zs', index) \<Rightarrow>
          (case reduce_attention n_elements index af of
             Inl e \<Rightarrow> Inl e
           | Inr attn' \<Rightarrow>
               (case bond_probabilities zf n_elements rf of
                  Inl e \<Rightarrow> Inl e
                | Inr (zs_ref', sq) \<Rightarrow>
                    Inr \<lparr> zs = zs', attn = attn', zs_ref = zs_ref', counts_ref_square = sq,
                          atoms = d, zs_full = zf, attn_full = af \<rparr>)))"

text \<open>The matrices in closed form. \<open>source_count\<close> is the number of reference edges
  that leave an element. \<open>put_matrix\<close> is what the assignment of line 144 leaves in a matrix
  of zeros when the columns \<open>u\<close> are written with the values \<open>h\<close>.\<close>

definition source_count :: "(int \<times> int) list \<Rightarrow> int \<Rightarrow> nat" where
  "source_count rf a = length (filter (\<lambda>q. fst q = a) rf)"

definition bond_cell :: "(int \<times> int) list \<Rightarrow> int \<Rightarrow> int \<Rightarrow> real" where
  "bond_cell rf a b =
     (if (a, b) \<in> set rf then real (count_list rf (a, b)) / real (source_count rf a) else 0)"

definition attention_matrix :: "((int \<times> int) \<times> real) list \<Rightarrow> int list \<Rightarrow> real list list" where
  "attention_matrix es E = map (\<lambda>a. map (\<lambda>b. mean (pair_weights es a b)) E) E"

definition bond_matrix :: "(int \<times> int) list \<Rightarrow> int list \<Rightarrow> real list list" where
  "bond_matrix rf E = map (\<lambda>a. map (\<lambda>b. bond_cell rf a b) E) E"

definition put_matrix :: "int list \<Rightarrow> ((int \<times> int) \<Rightarrow> real) \<Rightarrow> (int \<times> int) list \<Rightarrow> real list list" where
  "put_matrix E h u = map (\<lambda>a. map (\<lambda>b. if (a, b) \<in> set u then h (a, b) else 0) E) E"

section \<open>Concrete inputs\<close>

text \<open>Two batches over hydrogen (1) and carbon (6) in which every ordered element pair
  has an attention edge and no reference edge leaves a carbon, and the snapshot
  \<open>extract_data\<close> makes of them.\<close>

definition example_batches :: "batch list" where
  "example_batches =
     [\<lparr> z = [1, 6], edge_index = [(0, 1)], rollout = [(0, 0, 1), (0, 1, 0.2)] \<rparr>,
      \<lparr> z = [6, 1, 6], edge_index = [(1, 0), (1, 1)],
        rollout = [(1, 0, 0.4), (0, 1, 0.6), (0, 2, 0.5), (0, 2, 0.5)] \<rparr>]"

definition example_snapshot :: snapshot where
  "example_snapshot =
     \<lparr> zs = [1, 6], attn = [[1, 3 / 10], [3 / 5, 1 / 2]], zs_ref = [1],
       counts_ref_square = [[1 / 3, 2 / 3], [0, 0]], atoms = [(1, 2), (6, 3)],
       zs_full = [(1, 1), (1, 6), (1, 6), (6, 1), (6, 6), (6, 6)],
       attn_full = [1, 1 / 5, 2 / 5, 3 / 5, 1 / 2, 1 / 2] \<rparr>"

text \<open>The scenario of the specification: attention edges (H,C,0.2), (H,C,0.4) and
  (C,H,0.6), reference edges (H,C), (H,C) and (H,O), on one molecule with the atoms
  H, C and O.\<close>

definition scenario_batches :: "batch list" where
  "scenario_batches =
     [\<lparr> z = [1, 6, 8], edge_index = [(0, 1), (0, 1), (0, 2)],
        rollout = [(0, 1, 0.2), (0, 1, 0.4), (1, 0, 0.6)] \<rparr>]"

text \<open>The attention edges of the scenario completed with (H,H) and (C,C), so that every
  ordered pair over H and C has an edge, and the scenario's reference edges: oxygen is named
  by a reference edge only.\<close>

definition oxygen_reference_batches :: "batch list" where
  "oxygen_reference_batches =
     [\<lparr> z = [1, 6, 8], edge_index = [(0, 1), (0, 1), (0, 2)],
        rollout = [(0, 0, 1), (0, 1, 0.2), (0, 1, 0.4), (1, 0, 0.6), (1, 1, 1)] \<rparr>]"

text \<open>The atoms and edges of \<open>example_batches\<close> as one batch, the edges in another
  order.\<close>

definition merged_batches :: "batch list" where
  "merged_batches =
     [\<lparr> z = [1, 6, 6, 1, 6], edge_index = [(3, 3), (0, 1), (3, 2)],
        rollout = [(2, 4, 0.5), (0, 0, 1), (3, 2, 0.4), (0, 1, 0.2), (2, 4, 0.5), (2, 3, 0.6)] \<rparr>]"

text \<open>The smoother scenario of the specification, with one edge of another element pair
  among the edges: the pairs (H,C), (C,H), (H,C) at the distances 1.0, 1.2, 1.2 with the
  weights 0.2, 0.4, 0.6.\<close>

definition curve_pairs :: "(int \<times> int) list" where
  "curve_pairs = [(1, 6), (1, 1), (6, 1), (1, 6)]"

definition curve_attention :: "real list" where
  "curve_attention = [0.2, 0.9, 0.4, 0.6]"

definition curve_distance :: "real list" where
  "curve_distance = [1.0, 0.5, 1.2, 1.2]"

text \<open>Seventeen edges between hydrogen and carbon whose distances arrive in descending
  order, the edges at the positions 3 and 4 at the same distance 1.4.\<close>

definition descending_pairs :: "(int \<times> int) list" where
  "descending_pairs = replicate 17 (1, 6)"

definition descending_attention :: "real list" where
  "descending_attention =
     [1 / 20, 2 / 20, 3 / 20, 4 / 20, 5 / 20, 6 / 20, 7 / 20, 8 / 20, 9 / 20, 10 / 20,
      11 / 20, 12 / 20, 13 / 20, 14 / 20, 15 / 20, 16 / 20, 17 / 20]"

definition descending_distance :: "real list" where
  "descending_distance =
     [17 / 10, 16 / 10, 15 / 10, 14 / 10, 14 / 10, 12 / 10, 11 / 10, 10 / 10, 9 / 10, 8 / 10,
      7 / 10, 6 / 10, 5 / 10, 4 / 10, 3 / 10, 2 / 10, 1 / 10]"

section \<open>Auxiliary facts\<close>

subsection \<open>The dictionary of atom counts\<close>

lemma sum_map_entry:
  "distinct (map fst d) \<Longrightarrow>
   sum_list (map snd (AList.map_entry k (\<lambda>v. v + c) d)) =
     sum_list (map snd d) + (if k \<in> fst ` set d then c else (0::int))"
  by (induction d) (auto simp: image_iff)

lemma sum_update_new:
  "k \<notin> fst ` set d \<Longrightarrow> sum_list (map snd (AList.update k (0::int) d)) = sum_list (map snd d)"
  by (induction d) auto

lemma count_elem_sum:
  "distinct (map fst d) \<Longrightarrow>
   sum_list (map snd (count_elem zb d e)) = sum_list (map snd d) + int (count_list zb e)"
  by (simp add: count_elem_def Let_def sum_map_entry sum_update_new distinct_update dom_update)

lemma count_elem_distinct:
  "distinct (map fst d) \<Longrightarrow> distinct (map fst (count_elem zb d e))"
  by (simp add: count_elem_def Let_def distinct_update distinct_map_entry)

lemma count_elem_map_of:
  "map_of (count_elem zb d e) = (map_of d)(e \<mapsto> lookup0 d e + int (count_list zb e))"
proof (cases "e \<in> fst ` set d")
  case True
  then obtain v where "map_of d e = Some v"
    by (metis map_of_eq_None_iff not_Some_eq)
  with True show ?thesis
    by (auto simp: count_elem_def map_of_map_entry lookup0_def fun_eq_iff)
next
  case False
  then have "map_of d e = None" by (simp add: map_of_eq_None_iff)
  with False show ?thesis
    by (auto simp: count_elem_def map_of_map_entry update_conv' lookup0_def fun_eq_iff)
qed

lemma foldl_count_elem:
  "distinct (map fst d) \<Longrightarrow> distinct es \<Longrightarrow>
   distinct (map fst (foldl (count_elem zb) d es)) \<and>
   sum_list (map snd (foldl (count_elem zb) d es)) =
     sum_list (map snd d) + int (sum_list (map (count_list zb) es)) \<and>
   (\<forall>k. map_of (foldl (count_elem zb) d es) k =
      (if k \<in> set es then Some (lookup0 d k + int (count_list zb k)) else map_of d k))"
proof (induction es arbitrary: d)
  case Nil
  then show ?case by simp
next
  case (Cons e es)
  have d1: "distinct (map fst (count_elem zb d e))"
    using Cons.prems(1) by (rule count_elem_distinct)
  have d2: "distinct es" and ne: "e \<notin> set es" using Cons.prems(2) by auto
  note IH = Cons.IH[OF d1 d2]
  show ?case
    using IH ne Cons.prems(1)
    by (auto simp: count_elem_sum count_elem_map_of lookup0_def)
qed

lemma unique_set: "set (unique xs) = set xs"
  by (simp add: unique_def)

lemma unique_distinct: "distinct (unique xs)"
  by (simp add: unique_def)

lemma unique_sorted: "sorted (unique xs)"
  by (simp add: unique_def)

lemma sum_count_unique: "sum_list (map (count_list xs) (unique xs)) = length xs"
proof -
  have "sum_list (map (count_list xs) (unique xs)) = sum (count_list xs) (set (unique xs))"
    by (rule sum_list_distinct_conv_sum_set[OF unique_distinct])
  also have "\<dots> = length xs"
    by (simp add: unique_set sum_count_set)
  finally show ?thesis .
qed

lemma count_atoms_props:
  assumes "distinct (map fst d)"
  shows "distinct (map fst (count_atoms d zb))"
    and "sum_list (map snd (count_atoms d zb)) = sum_list (map snd d) + int (length zb)"
    and "lookup0 (count_atoms d zb) k = lookup0 d k + int (count_list zb k)"
    and "fst ` set (count_atoms d zb) = fst ` set d \<union> set zb"
proof -
  note F = foldl_count_elem[OF assms unique_distinct, of zb zb]
  show "distinct (map fst (count_atoms d zb))" using F by (simp add: count_atoms_def)
  show "sum_list (map snd (count_atoms d zb)) = sum_list (map snd d) + int (length zb)"
    using F by (simp add: count_atoms_def sum_count_unique)
  have M: "map_of (count_atoms d zb) k =
      (if k \<in> set zb then Some (lookup0 d k + int (count_list zb k)) else map_of d k)" for k
    using F by (simp add: count_atoms_def unique_set)
  show "lookup0 (count_atoms d zb) k = lookup0 d k + int (count_list zb k)"
    using M[of k] by (auto simp: lookup0_def count_list_0_iff split: option.splits)
  have "dom (map_of (count_atoms d zb)) = dom (map_of d) \<union> set zb"
    using M by (auto simp: dom_def split: if_splits)
  then show "fst ` set (count_atoms d zb) = fst ` set d \<union> set zb"
    by (simp add: dom_map_of_conv_image_fst)
qed


lemma gather_Inr_iff:
  "gather xs idx = Inr ys \<longleftrightarrow> list_all (\<lambda>i. i < length xs) idx \<and> ys = map ((!) xs) idx"
  by (auto simp: gather_def)

lemma gather_Inl: "gather xs idx = Inl e \<Longrightarrow> e = IndexError"
  by (auto simp: gather_def split: if_splits)

lemma batch_step_eq:
  "batch_step s b = (if batch_ok b then Inr (after_batch s b) else Inl IndexError)"
  by (auto simp: batch_step_def gather_def batch_ok_def after_batch_def batch_edges_def
      batch_reference_edges_def list_all_iff split_def comp_def split: sum.splits)

lemma run_batches_eq:
  "run_batches s bs =
     (if list_all batch_ok bs then Inr (foldl after_batch s bs) else Inl IndexError)"
  by (induction bs arbitrary: s) (auto simp: batch_step_eq)


lemma foldl_after_batch:
  "foldl after_batch s bs =
     \<lparr> zs_0 = zs_0 s @ map (\<lambda>b. map (fst \<circ> fst) (batch_edges b)) bs,
       zs_1 = zs_1 s @ map (\<lambda>b. map (snd \<circ> fst) (batch_edges b)) bs,
       zs_0_ref = zs_0_ref s @ map (\<lambda>b. map fst (batch_reference_edges b)) bs,
       zs_1_ref = zs_1_ref s @ map (\<lambda>b. map snd (batch_reference_edges b)) bs,
       atoms_per_elem = foldl count_atoms (atoms_per_elem s) (map z bs),
       rollout_weights = rollout_weights s @ map (\<lambda>b. map snd (batch_edges b)) bs \<rparr>"
  by (induction bs arbitrary: s) (simp_all add: after_batch_def)

lemma zip_map_same: "zip (map f xs) (map h xs) = map (\<lambda>x. (f x, h x)) xs"
  by (induction xs) simp_all

lemma zip_concat_map:
  "zip (concat (map (\<lambda>b. map f (g b)) bs)) (concat (map (\<lambda>b. map h (g b)) bs)) =
     concat (map (\<lambda>b. map (\<lambda>x. (f x, h x)) (g b)) bs)"
  by (induction bs) (simp_all add: zip_map_same)

lemma zip_fst_snd_edges:
  "zip (concat (map (\<lambda>b. map (fst \<circ> fst) (batch_edges b)) bs))
       (concat (map (\<lambda>b. map (snd \<circ> fst) (batch_edges b)) bs)) = map fst (edges bs)"
  by (simp add: zip_concat_map edges_def map_concat comp_def)

lemma zip_reference_edges:
  "zip (concat (map (\<lambda>b. map fst (batch_reference_edges b)) bs))
       (concat (map (\<lambda>b. map snd (batch_reference_edges b)) bs)) = reference_edges bs"
  by (simp add: zip_concat_map reference_edges_def)

lemma concat_weights:
  "concat (map (\<lambda>b. map snd (batch_edges b)) bs) = map snd (edges bs)"
  by (simp add: edges_def map_concat comp_def)

lemma extract_data_eq:
  "extract_data bs =
     (if \<not> list_all batch_ok bs then Inl IndexError
      else if bs = [] then Inl EmptyCat
      else aggregate (map fst (edges bs)) (map snd (edges bs)) (reference_edges bs)
             (foldl count_atoms [] (map z bs)))"
  by (simp add: extract_data_def run_batches_eq foldl_after_batch init_state_def cat_def
      zip_fst_snd_edges zip_reference_edges concat_weights aggregate_def
      split: sum.splits prod.splits)


lemma foldl_count_atoms:
  "distinct (map fst d) \<Longrightarrow>
   distinct (map fst (foldl count_atoms d zss)) \<and>
   sum_list (map snd (foldl count_atoms d zss)) =
     sum_list (map snd d) + int (sum_list (map length zss)) \<and>
   (\<forall>k. lookup0 (foldl count_atoms d zss) k =
      lookup0 d k + int (sum_list (map (\<lambda>zb. count_list zb k) zss))) \<and>
   fst ` set (foldl count_atoms d zss) = fst ` set d \<union> \<Union> (set ` set zss)"
proof (induction zss arbitrary: d)
  case Nil
  then show ?case by simp
next
  case (Cons zb zss)
  note P = count_atoms_props[OF Cons.prems]
  from Cons.IH[OF P(1)] show ?case
    by (simp add: P(2) P(3) P(4) Un_assoc)
qed

subsection \<open>Unique columns and the scatter index\<close>

lemma sorted_product:
  fixes xs :: "'a::linorder list" and ys :: "'b::linorder list"
  shows "sorted xs \<Longrightarrow> distinct xs \<Longrightarrow> sorted ys \<Longrightarrow> sorted (List.product xs ys)"
proof (induction xs)
  case Nil
  then show ?case by simp
next
  case (Cons x xs)
  have 1: "sorted (map (Pair x) ys)"
    using Cons.prems(3) by (induction ys) (auto simp: less_eq_prod_def)
  have 2: "sorted (List.product xs ys)"
    using Cons by simp
  have 3: "\<forall>p\<in>set (map (Pair x) ys). \<forall>q\<in>set (List.product xs ys). p \<le> q"
    using Cons.prems(1,2) by (auto simp: less_eq_prod_def)
  show ?case
    using 1 2 3 by (simp add: sorted_append)
qed

lemma endpoints_set: "set (endpoints ps) = fst ` set ps \<union> snd ` set ps"
  by (simp add: endpoints_def)

lemma pairs_subset_square:
  "set zf \<subseteq> set (unique (endpoints zf)) \<times> set (unique (endpoints zf))"
  by (auto simp: unique_set endpoints_set intro: rev_image_eqI)

lemma length_unique_card: "length (unique xs) = card (set xs)"
  by (metis distinct_card unique_distinct unique_set)

lemma unique_pairs_le:
  "length (unique zf) \<le> length (unique (endpoints zf)) * length (unique (endpoints zf))"
proof -
  let ?E = "set (unique (endpoints zf))"
  have "card (set zf) \<le> card (?E \<times> ?E)"
    by (rule card_mono) (simp_all add: pairs_subset_square)
  then show ?thesis
    by (simp add: length_unique_card card_cartesian_product unique_set)
qed

lemma unique_pairs_full_iff:
  "length (unique zf) = length (unique (endpoints zf)) * length (unique (endpoints zf))
    \<longleftrightarrow> set zf = set (endpoints zf) \<times> set (endpoints zf)"
proof -
  let ?E = "set (endpoints zf)"
  have sub: "set zf \<subseteq> ?E \<times> ?E"
    using pairs_subset_square[of zf] by (simp add: unique_set)
  have fin: "finite (?E \<times> ?E)" by simp
  have "card (set zf) = card (?E \<times> ?E) \<longleftrightarrow> set zf = ?E \<times> ?E"
    using card_subset_eq[OF fin sub] by auto
  then show ?thesis
    by (simp add: length_unique_card card_cartesian_product unique_set)
qed

lemma unique_eq_product:
  assumes "set zf = set (endpoints zf) \<times> set (endpoints zf)"
  shows "unique zf = List.product (unique (endpoints zf)) (unique (endpoints zf))"
proof (rule sorted_distinct_set_unique)
  show "sorted (unique zf)" by (rule unique_sorted)
  show "distinct (unique zf)" by (rule unique_distinct)
  show "sorted (List.product (unique (endpoints zf)) (unique (endpoints zf)))"
    by (intro sorted_product unique_sorted unique_distinct)
  show "distinct (List.product (unique (endpoints zf)) (unique (endpoints zf)))"
    by (intro distinct_product unique_distinct)
  show "set (unique zf) = set (List.product (unique (endpoints zf)) (unique (endpoints zf)))"
    using assms by (simp add: unique_set)
qed

lemma scatter_indices_eq:
  "scatter_indices zf =
     (if length (unique zf) \<noteq> length (unique (endpoints zf)) * length (unique (endpoints zf))
      then Inl ShapeError
      else if unique (endpoints zf) = [] then Inl IndexError
      else Inr (length (unique (endpoints zf)), unique (endpoints zf), inverse_indices zf))"
proof -
  let ?E = "unique (endpoints zf)"
  let ?n = "length ?E"
  let ?u = "unique zf"
  show ?thesis
  proof (cases "length ?u = ?n * ?n")
    case False
    then show ?thesis
      by (simp add: scatter_indices_def reshape3_def Let_def endpoints_def)
  next
    case full: True
    show ?thesis
    proof (cases "?E = []")
      case True
      with full show ?thesis
        by (simp add: scatter_indices_def reshape3_def Let_def endpoints_def item_def)
    next
      case False
      then have n: "0 < ?n" by simp
      have up: "?u = List.product ?E ?E"
        using full unique_eq_product unique_pairs_full_iff by blast
      have "map (\<lambda>j. (map fst ?u @ map snd ?u) ! ((1 * ?n + 0) * ?n + j)) [0..<?n] = ?E"
      proof (rule nth_equalityI)
        show "length (map (\<lambda>j. (map fst ?u @ map snd ?u) ! ((1 * ?n + 0) * ?n + j)) [0..<?n]) = ?n"
          by simp
        fix j assume "j < length (map (\<lambda>j. (map fst ?u @ map snd ?u) ! ((1 * ?n + 0) * ?n + j)) [0..<?n])"
        then have j: "j < ?n" by simp
        then have jj: "j < ?n * ?n" using n
          by (metis less_le_trans mult.commute mult_le_mono2 One_nat_def Suc_leI mult.right_neutral)
        have "(map fst ?u @ map snd ?u) ! (?n * ?n + j) = map snd ?u ! j"
          using full by (simp add: nth_append)
        also have "\<dots> = snd (List.product ?E ?E ! j)"
          using jj full up by simp
        also have "\<dots> = ?E ! j"
          using jj j by (simp add: product_nth)
        finally show "map (\<lambda>j. (map fst ?u @ map snd ?u) ! ((1 * ?n + 0) * ?n + j)) [0..<?n] ! j = ?E ! j"
          using j by simp
      qed
      with full False n show ?thesis
        by (simp add: scatter_indices_def reshape3_def Let_def item_def endpoints_def)
    qed
  qed
qed

lemma index_of_less: "x \<in> set xs \<Longrightarrow> index_of xs x < length xs"
  by (induction xs) auto

lemma nth_index_of: "x \<in> set xs \<Longrightarrow> xs ! index_of xs x = x"
  by (induction xs) auto

lemma index_of_nth: "distinct xs \<Longrightarrow> i < length xs \<Longrightarrow> index_of xs (xs ! i) = i"
proof (induction xs arbitrary: i)
  case Nil
  then show ?case by simp
next
  case (Cons x xs)
  then show ?case by (cases i) auto
qed

lemma index_of_eq_iff:
  "distinct xs \<Longrightarrow> x \<in> set xs \<Longrightarrow> k < length xs \<Longrightarrow> index_of xs x = k \<longleftrightarrow> x = xs ! k"
  using index_of_nth nth_index_of by metis

lemma set_inverse_indices: "set (inverse_indices xs) = {0..<length (unique xs)}"
proof
  show "set (inverse_indices xs) \<subseteq> {0..<length (unique xs)}"
    by (auto simp: inverse_indices_def unique_set intro!: index_of_less)
  show "{0..<length (unique xs)} \<subseteq> set (inverse_indices xs)"
  proof
    fix k assume "k \<in> {0..<length (unique xs)}"
    then have k: "k < length (unique xs)" by simp
    then have "unique xs ! k \<in> set xs"
      using unique_set nth_mem by metis
    moreover have "index_of (unique xs) (unique xs ! k) = k"
      using k by (simp add: index_of_nth unique_distinct)
    ultimately show "k \<in> set (inverse_indices xs)"
      by (force simp: inverse_indices_def)
  qed
qed

lemma fold_max_0: "fold max xs (0::nat) = Max (insert 0 (set xs))"
  using Max.set_eq_fold[of 0 xs] by simp

lemma scatter_size:
  "(if inverse_indices xs = [] then 0 else Suc (fold max (inverse_indices xs) 0))
     = length (unique xs)"
proof (cases "xs = []")
  case True
  then show ?thesis by (simp add: inverse_indices_def unique_def)
next
  case False
  then have pos: "0 < length (unique xs)"
    by (metis length_greater_0_conv set_empty unique_set)
  have "insert 0 (set (inverse_indices xs)) = {0..<length (unique xs)}"
    using pos by (auto simp: set_inverse_indices)
  then have "Max (insert 0 (set (inverse_indices xs))) = Max {0..<length (unique xs)}"
    by simp
  also have "\<dots> = length (unique xs) - 1"
    using pos by (intro Max_eqI) auto
  finally have "fold max (inverse_indices xs) 0 = length (unique xs) - 1"
    by (simp only: fold_max_0)
  with pos False show ?thesis
    by (simp add: inverse_indices_def)
qed

lemma scatter_selection:
  assumes "k < length (unique (map fst es))"
  shows "map fst (filter (\<lambda>(v, i). i = k) (zip (map snd es) (inverse_indices (map fst es))))
           = map snd (filter (\<lambda>(q, w). q = unique (map fst es) ! k) es)"
proof -
  let ?u = "unique (map fst es)"
  have z: "zip (map snd es) (inverse_indices (map fst es)) = map (\<lambda>e. (snd e, index_of ?u (fst e))) es"
    by (simp add: inverse_indices_def zip_map_same)
  have f: "filter (\<lambda>e. index_of ?u (fst e) = k) es = filter (\<lambda>(q, w). q = ?u ! k) es"
  proof (rule filter_cong[OF refl])
    fix e assume "e \<in> set es"
    then have "fst e \<in> set ?u" by (simp add: unique_set)
    then show "(index_of ?u (fst e) = k) = (case e of (q, w) \<Rightarrow> q = ?u ! k)"
      using index_of_eq_iff[OF unique_distinct _ assms, of "fst e"]
      by (simp add: split_def)
  qed
  have "map fst (filter (\<lambda>(v, i). i = k) (zip (map snd es) (inverse_indices (map fst es))))
      = map snd (filter (\<lambda>e. index_of ?u (fst e) = k) es)"
    by (simp add: z filter_map comp_def)
  then show ?thesis
    by (simp only: f)
qed

lemma scatter_mean_groups:
  "scatter_mean (map snd es) (inverse_indices (map fst es)) =
     map (\<lambda>p. let sel = map snd (filter (\<lambda>(q, w). q = p) es)
              in sum_list sel / real (max 1 (length sel)))
         (unique (map fst es))"
proof -
  let ?u = "unique (map fst es)"
  let ?F = "\<lambda>p. let sel = map snd (filter (\<lambda>(q, w). q = p) es)
              in sum_list sel / real (max 1 (length sel))"
  have "scatter_mean (map snd es) (inverse_indices (map fst es)) =
      map (\<lambda>k. ?F (?u ! k)) [0..<length ?u]"
    unfolding scatter_mean_def scatter_size
    by (rule map_cong[OF refl]) (simp add: scatter_selection Let_def)
  also have "\<dots> = map ?F ?u"
    by (rule nth_equalityI) simp_all
  finally show ?thesis .
qed

lemma product_nth_square:
  assumes "i < length xs" "j < length xs"
  shows "i * length xs + j < length xs * length xs"
    and "List.product xs xs ! (i * length xs + j) = (xs ! i, xs ! j)"
proof -
  have "i * length xs + j < i * length xs + length xs" using assms(2) by simp
  also have "\<dots> = Suc i * length xs" by simp
  also have "\<dots> \<le> length xs * length xs"
    using assms(1) by (metis Suc_leI mult_le_mono1)
  finally show lt: "i * length xs + j < length xs * length xs" .
  have ne: "length xs \<noteq> 0" using assms(2) by auto
  have "(i * length xs + j) div length xs = i" "(i * length xs + j) mod length xs = j"
    using assms(2) div_mult_self3[OF ne, of i j] by simp_all
  then show "List.product xs xs ! (i * length xs + j) = (xs ! i, xs ! j)"
    using lt by (simp add: product_nth)
qed

lemma reshape2_product:
  "reshape2 (map F (List.product E E)) (length E) (length E) =
     Inr (map (\<lambda>a. map (\<lambda>b. F (a, b)) E) E)"
proof -
  let ?n = "length E"
  have "map (\<lambda>i. map (\<lambda>j. map F (List.product E E) ! (i * ?n + j)) [0..<?n]) [0..<?n]
      = map (\<lambda>a. map (\<lambda>b. F (a, b)) E) E"
  proof (rule nth_equalityI)
    show "length (map (\<lambda>i. map (\<lambda>j. map F (List.product E E) ! (i * ?n + j)) [0..<?n]) [0..<?n])
        = length (map (\<lambda>a. map (\<lambda>b. F (a, b)) E) E)" by simp
    fix i assume "i < length (map (\<lambda>i. map (\<lambda>j. map F (List.product E E) ! (i * ?n + j)) [0..<?n]) [0..<?n])"
    then have i: "i < ?n" by simp
    have "map (\<lambda>j. map F (List.product E E) ! (i * ?n + j)) [0..<?n] = map (\<lambda>b. F (E ! i, b)) E"
    proof (rule nth_equalityI)
      show "length (map (\<lambda>j. map F (List.product E E) ! (i * ?n + j)) [0..<?n]) = length (map (\<lambda>b. F (E ! i, b)) E)"
        by simp
      fix j assume "j < length (map (\<lambda>j. map F (List.product E E) ! (i * ?n + j)) [0..<?n])"
      then have j: "j < ?n" by simp
      show "map (\<lambda>j. map F (List.product E E) ! (i * ?n + j)) [0..<?n] ! j = map (\<lambda>b. F (E ! i, b)) E ! j"
        using product_nth_square[OF i j] j by simp
    qed
    then show "map (\<lambda>i. map (\<lambda>j. map F (List.product E E) ! (i * ?n + j)) [0..<?n]) [0..<?n] ! i
        = map (\<lambda>a. map (\<lambda>b. F (a, b)) E) E ! i"
      using i by simp
  qed
  then show ?thesis
    by (simp add: reshape2_def)
qed

lemma pair_weights_nonempty:
  "(a, b) \<in> fst ` set es \<Longrightarrow> pair_weights es a b \<noteq> []"
  by (force simp: pair_weights_def filter_empty_conv)

lemma reduce_attention_full:
  assumes "set (map fst es) = set (endpoints (map fst es)) \<times> set (endpoints (map fst es))"
  shows "reduce_attention (length (unique (endpoints (map fst es))))
           (inverse_indices (map fst es)) (map snd es)
         = Inr (map (\<lambda>a. map (\<lambda>b. mean (pair_weights es a b)) (unique (endpoints (map fst es))))
                  (unique (endpoints (map fst es))))"
proof -
  let ?E = "unique (endpoints (map fst es))"
  let ?F = "\<lambda>p. let sel = map snd (filter (\<lambda>(q, w). q = p) es)
              in sum_list sel / real (max 1 (length sel))"
  have up: "unique (map fst es) = List.product ?E ?E"
    using assms by (rule unique_eq_product)
  have "reduce_attention (length ?E) (inverse_indices (map fst es)) (map snd es)
      = Inr (map (\<lambda>a. map (\<lambda>b. ?F (a, b)) ?E) ?E)"
    by (simp only: reduce_attention_def scatter_mean_groups up reshape2_product)
  also have "map (\<lambda>a. map (\<lambda>b. ?F (a, b)) ?E) ?E
      = map (\<lambda>a. map (\<lambda>b. mean (pair_weights es a b)) ?E) ?E"
  proof (intro map_cong refl)
    fix a b assume "a \<in> set ?E" "b \<in> set ?E"
    then have "(a, b) \<in> fst ` set es"
      using assms by (simp add: unique_set)
    then have "pair_weights es a b \<noteq> []"
      by (rule pair_weights_nonempty)
    then have "max 1 (length (pair_weights es a b)) = length (pair_weights es a b)"
      by (cases "pair_weights es a b") simp_all
    then show "?F (a, b) = mean (pair_weights es a b)"
      by (simp add: mean_def pair_weights_def Let_def)
  qed
  finally show ?thesis .
qed

lemma zip_map_self: "zip u (map f u) = map (\<lambda>p. (p, f p)) u"
  by (induction u) simp_all

lemma row_total_map:
  "row_total u (map f u) e = sum_list (map f (filter (\<lambda>p. fst p = e) u))"
  by (simp add: row_total_def zip_map_self filter_map comp_def)

lemma normalize_row_map:
  "normalize_row u (map f u) e =
     map (\<lambda>p. if fst p = e then f p / row_total u (map f u) e else f p) u"
  by (simp add: normalize_row_def zip_map_self)

lemma foldl_normalize_row:
  "distinct es \<Longrightarrow>
   foldl (normalize_row u) (map f u) es =
     map (\<lambda>p. if fst p \<in> set es then f p / row_total u (map f u) (fst p) else f p) u"
proof (induction es arbitrary: f)
  case Nil
  then show ?case by simp
next
  case (Cons e es)
  let ?g = "\<lambda>p. if fst p = e then f p / row_total u (map f u) e else f p"
  have d: "distinct es" and ne: "e \<notin> set es" using Cons.prems by auto
  have tot: "row_total u (map ?g u) a = row_total u (map f u) a" if "a \<noteq> e" for a
  proof -
    have "map ?g (filter (\<lambda>p. fst p = a) u) = map f (filter (\<lambda>p. fst p = a) u)"
      using that by (intro map_cong refl) auto
    then show ?thesis by (simp only: row_total_map)
  qed
  have "foldl (normalize_row u) (map f u) (e # es) = foldl (normalize_row u) (map ?g u) es"
    by (simp only: foldl_Cons normalize_row_map)
  also have "\<dots> = map (\<lambda>p. if fst p \<in> set es then ?g p / row_total u (map ?g u) (fst p) else ?g p) u"
    by (rule Cons.IH[OF d])
  also have "\<dots> = map (\<lambda>p. if fst p \<in> set (e # es) then f p / row_total u (map f u) (fst p) else f p) u"
    using ne tot by (intro map_cong refl) auto
  finally show ?case .
qed

lemma count_list_filter:
  "count_list (filter P xs) x = (if P x then count_list xs x else 0)"
  by (induction xs) auto

lemma real_sum_list: "real (sum_list (map f xs)) = sum_list (map (\<lambda>x. real (f x)) xs)"
  by (induction xs) simp_all

lemma row_total_counts:
  "row_total (unique rf) (map (\<lambda>p. real (count_list rf p)) (unique rf)) a
     = real (source_count rf a)"
proof -
  let ?P = "\<lambda>p. fst p = a"
  let ?v = "filter ?P (unique rf)"
  have dv: "distinct ?v" by (simp add: unique_distinct)
  have sv: "set ?v = set (filter ?P rf)" by (auto simp: unique_set)
  have "sum_list (map (count_list rf) ?v) = sum_list (map (count_list (filter ?P rf)) ?v)"
    by (intro arg_cong[where f = sum_list] map_cong refl) (simp add: count_list_filter)
  also have "\<dots> = sum (count_list (filter ?P rf)) (set ?v)"
    by (rule sum_list_distinct_conv_sum_set[OF dv])
  also have "\<dots> = length (filter ?P rf)"
    unfolding sv by (rule sum_count_set) simp_all
  finally have "sum_list (map (count_list rf) ?v) = source_count rf a"
    by (simp add: source_count_def)
  then have "real (sum_list (map (count_list rf) ?v)) = real (source_count rf a)"
    by simp
  then show ?thesis
    by (simp add: row_total_map real_sum_list)
qed

lemma map_of_zip_upt:
  "distinct E \<Longrightarrow>
   map_of (zip E [k..<k + length E]) a = (if a \<in> set E then Some (k + index_of E a) else None)"
proof (induction E arbitrary: k)
  case Nil
  then show ?case by simp
next
  case (Cons x E)
  have "[k..<k + Suc (length E)] = k # [Suc k..<k + Suc (length E)]"
    by (rule upt_conv_Cons) simp
  then have "[k..<k + length (x # E)] = k # [Suc k..<Suc k + length E]"
    by simp
  then show ?case
    using Cons.IH[of "Suc k"] Cons.prems by auto
qed

lemma map_of_enumerate:
  "distinct E \<Longrightarrow>
   map_of (zip E [0..<length E]) a = (if a \<in> set E then Some (index_of E a) else None)"
  using map_of_zip_upt[of E 0 a] by simp

lemma those_map:
  "those (map f xs) = (if list_all (\<lambda>x. f x \<noteq> None) xs then Some (map (\<lambda>x. the (f x)) xs) else None)"
  by (induction xs) (auto split: option.splits)

lemma apply_z2idx_eq:
  assumes "distinct E"
  shows "apply_z2idx (zip E [0..<length E]) u =
     (if set (endpoints u) \<subseteq> set E
      then Inr (map (\<lambda>p. (index_of E (fst p), index_of E (snd p))) u)
      else Inl KeyError)"
proof -
  let ?f = "\<lambda>(a, b). case (map_of (zip E [0..<length E]) a, map_of (zip E [0..<length E]) b) of
                                   (Some i, Some j) \<Rightarrow> Some (i, j)
                                 | _ \<Rightarrow> None"
  have f: "?f p = (if fst p \<in> set E \<and> snd p \<in> set E
                   then Some (index_of E (fst p), index_of E (snd p)) else None)" for p
    by (cases p) (simp add: map_of_enumerate[OF assms])
  have all: "list_all (\<lambda>x. ?f x \<noteq> None) u \<longleftrightarrow> set (endpoints u) \<subseteq> set E"
    unfolding f by (auto simp: list_all_iff endpoints_set)
  have m: "map (\<lambda>x. the (?f x)) u = map (\<lambda>p. (index_of E (fst p), index_of E (snd p))) u"
    if "set (endpoints u) \<subseteq> set E"
    using that unfolding f by (intro map_cong refl) (auto simp: endpoints_set)
  show ?thesis
    unfolding apply_z2idx_def those_map all using m by simp
qed

lemma put_matrix_Nil: "put_matrix E h [] = zeros (length E) (length E)"
  by (simp add: put_matrix_def zeros_def map_replicate_const)

lemma put_matrix_length: "length (put_matrix E h u) = length E"
  and put_matrix_row_length: "i < length E \<Longrightarrow> length (put_matrix E h u ! i) = length E"
  by (simp_all add: put_matrix_def)

lemma put_matrix_snoc:
  assumes "distinct E" "a \<in> set E" "b \<in> set E"
  shows "(put_matrix E h u)[index_of E a := (put_matrix E h u ! index_of E a)[index_of E b := h (a, b)]]
           = put_matrix E h (u @ [(a, b)])"
proof (rule nth_equalityI)
  let ?M = "put_matrix E h u"
  let ?ia = "index_of E a" and ?ib = "index_of E b"
  have ia: "?ia < length E" "E ! ?ia = a" using assms(2) by (simp_all add: index_of_less nth_index_of)
  have ib: "?ib < length E" "E ! ?ib = b" using assms(3) by (simp_all add: index_of_less nth_index_of)
  show "length (?M[?ia := (?M ! ?ia)[?ib := h (a, b)]]) = length (put_matrix E h (u @ [(a, b)]))"
    by (simp add: put_matrix_length)
  fix i assume "i < length (?M[?ia := (?M ! ?ia)[?ib := h (a, b)]])"
  then have i: "i < length E" by (simp add: put_matrix_length)
  show "?M[?ia := (?M ! ?ia)[?ib := h (a, b)]] ! i = put_matrix E h (u @ [(a, b)]) ! i"
  proof (cases "i = ?ia")
    case False
    then have "E ! i \<noteq> a"
      using i ia assms(1) by (metis nth_eq_iff_index_eq)
    with False i show ?thesis
      by (simp add: put_matrix_def)
  next
    case True
    have "(?M ! ?ia)[?ib := h (a, b)] = put_matrix E h (u @ [(a, b)]) ! ?ia"
    proof (rule nth_equalityI)
      show "length ((?M ! ?ia)[?ib := h (a, b)]) = length (put_matrix E h (u @ [(a, b)]) ! ?ia)"
        using ia by (simp add: put_matrix_row_length)
      fix j assume "j < length ((?M ! ?ia)[?ib := h (a, b)])"
      then have j: "j < length E" using ia by (simp add: put_matrix_row_length)
      show "(?M ! ?ia)[?ib := h (a, b)] ! j = put_matrix E h (u @ [(a, b)]) ! ?ia ! j"
      proof (cases "j = ?ib")
        case True
        with ia ib show ?thesis by (simp add: put_matrix_def)
      next
        case False
        then have "E ! j \<noteq> b"
          using j ib assms(1) by (metis nth_eq_iff_index_eq)
        with False ia j show ?thesis
          by (simp add: put_matrix_def)
      qed
    qed
    with True ia show ?thesis
      by (simp add: put_matrix_length)
  qed
qed

lemma foldl_put:
  assumes "distinct E"
  shows "set u \<subseteq> set E \<times> set E \<Longrightarrow>
     foldl (\<lambda>m' ((i, j), v). m'[i := (m' ! i)[j := v]]) (zeros (length E) (length E))
        (zip (map (\<lambda>p. (index_of E (fst p), index_of E (snd p))) u) (map h u))
      = put_matrix E h u"
proof (induction u rule: rev_induct)
  case Nil
  then show ?case by (simp add: put_matrix_Nil)
next
  case (snoc p u)
  obtain a b where p: "p = (a, b)" by (cases p)
  have ab: "a \<in> set E" "b \<in> set E" using snoc.prems p by auto
  have u: "set u \<subseteq> set E \<times> set E" using snoc.prems by auto
  show ?case
    using snoc.IH[OF u] put_matrix_snoc[OF assms ab, of h u]
    by (simp add: p)
qed

lemma index_put_eq:
  assumes "distinct E" "set u \<subseteq> set E \<times> set E"
  shows "index_put (zeros (length E) (length E))
           (map (\<lambda>p. (index_of E (fst p), index_of E (snd p))) u) (map h u)
         = Inr (put_matrix E h u)"
proof -
  have "list_all (\<lambda>(i, j). i < length (zeros (length E) (length E)) \<and>
            j < length (zeros (length E) (length E) ! i))
          (map (\<lambda>p. (index_of E (fst p), index_of E (snd p))) u)"
    using assms(2) by (auto simp: list_all_iff zeros_def index_of_less)
  then show ?thesis
    by (simp add: index_put_def foldl_put[OF assms])
qed

lemma unique_cong: "set xs = set ys \<Longrightarrow> unique xs = unique ys"
  by (intro sorted_distinct_set_unique unique_sorted unique_distinct) (simp add: unique_set)

lemma bond_probabilities_eq:
  "bond_probabilities zf (length (unique (endpoints zf))) rf =
     (if set (endpoints rf) \<subseteq> set (endpoints zf)
      then Inr (unique (map fst rf), bond_matrix rf (unique (endpoints zf)))
      else Inl KeyError)"
proof -
  let ?E = "unique (endpoints zf)"
  let ?u = "unique rf"
  let ?c = "\<lambda>p. real (count_list rf p)"
  let ?h = "\<lambda>p. ?c p / real (source_count rf (fst p))"
  have keys: "sort (unique (map fst zf @ map snd zf)) = ?E"
    by (simp add: endpoints_def sorted_sort_id unique_sorted)
  have counts: "map real (unique_counts rf) = map ?c ?u"
    by (simp add: unique_counts_def)
  have norm: "foldl (normalize_row ?u) (map ?c ?u) (unique (map fst ?u @ map snd ?u)) = map ?h ?u"
    unfolding foldl_normalize_row[OF unique_distinct] row_total_counts
    by (intro map_cong refl) (auto simp: unique_set)
  have idx: "apply_z2idx (zip ?E [0..<length ?E]) ?u =
     (if set (endpoints rf) \<subseteq> set (endpoints zf)
      then Inr (map (\<lambda>p. (index_of ?E (fst p), index_of ?E (snd p))) ?u)
      else Inl KeyError)"
    unfolding apply_z2idx_eq[OF unique_distinct]
    by (simp add: endpoints_set unique_set)
  have zr: "unique (map fst ?u) = unique (map fst rf)"
    by (rule unique_cong) (simp add: unique_set)
  show ?thesis
  proof (cases "set (endpoints rf) \<subseteq> set (endpoints zf)")
    case False
    then show ?thesis
      unfolding bond_probabilities_def Let_def keys counts norm idx by simp
  next
    case True
    have "set rf \<subseteq> set (endpoints rf) \<times> set (endpoints rf)"
      by (auto simp: endpoints_set intro: rev_image_eqI)
    with True have sub: "set ?u \<subseteq> set ?E \<times> set ?E"
      unfolding unique_set by blast
    have "put_matrix ?E ?h ?u = bond_matrix rf ?E"
      by (simp add: put_matrix_def bond_matrix_def bond_cell_def unique_set)
    with True show ?thesis
      unfolding bond_probabilities_def Let_def keys counts norm idx
      by (simp add: index_put_eq[OF unique_distinct sub] zr)
  qed
qed

lemma aggregate_eq:
  "aggregate (map fst es) (map snd es) rf d =
     (if set (map fst es) \<noteq> set (endpoints (map fst es)) \<times> set (endpoints (map fst es))
      then Inl ShapeError
      else if es = [] then Inl IndexError
      else if \<not> set (endpoints rf) \<subseteq> set (endpoints (map fst es)) then Inl KeyError
      else Inr \<lparr> zs = unique (endpoints (map fst es)),
                 attn = attention_matrix es (unique (endpoints (map fst es))),
                 zs_ref = unique (map fst rf),
                 counts_ref_square = bond_matrix rf (unique (endpoints (map fst es))),
                 atoms = d, zs_full = map fst es, attn_full = map snd es \<rparr>)"
proof -
  let ?zf = "map fst es"
  let ?E = "unique (endpoints ?zf)"
  have e: "?E = [] \<longleftrightarrow> es = []"
    by (metis Nil_is_map_conv Nil_is_append_conv endpoints_def set_empty unique_set)
  show ?thesis
  proof (cases "set ?zf = set (endpoints ?zf) \<times> set (endpoints ?zf)")
    case False
    then show ?thesis
      by (simp add: aggregate_def scatter_indices_eq unique_pairs_full_iff)
  next
    case True
    then have full: "length (unique ?zf) = length ?E * length ?E"
      by (simp add: unique_pairs_full_iff)
    show ?thesis
      using True full e
      by (simp add: aggregate_def scatter_indices_eq reduce_attention_full[OF True]
          bond_probabilities_eq attention_matrix_def)
  qed
qed

subsection \<open>The result of \<open>extract_data\<close>\<close>

lemma extract_data_closed:
  "extract_data bs =
     (if \<not> list_all batch_ok bs then Inl IndexError
      else if bs = [] then Inl EmptyCat
      else if fst ` set (edges bs) \<noteq> set (elements bs) \<times> set (elements bs) then Inl ShapeError
      else if edges bs = [] then Inl IndexError
      else if \<not> set (endpoints (reference_edges bs)) \<subseteq> set (elements bs) then Inl KeyError
      else Inr \<lparr> zs = elements bs,
                 attn = attention_matrix (edges bs) (elements bs),
                 zs_ref = unique (map fst (reference_edges bs)),
                 counts_ref_square = bond_matrix (reference_edges bs) (elements bs),
                 atoms = foldl count_atoms [] (map z bs),
                 zs_full = map fst (edges bs), attn_full = map snd (edges bs) \<rparr>)"
  by (simp add: extract_data_eq aggregate_eq elements_def unique_set)

lemma extract_data_Inr:
  assumes "extract_data bs = Inr r"
  shows "zs r = elements bs"
    and "attn r = attention_matrix (edges bs) (elements bs)"
    and "counts_ref_square r = bond_matrix (reference_edges bs) (elements bs)"
    and "zs_ref r = unique (map fst (reference_edges bs))"
    and "fst ` set (edges bs) = set (elements bs) \<times> set (elements bs)"
    and "set (endpoints (reference_edges bs)) \<subseteq> set (elements bs)"
    and "edges bs \<noteq> []"
  using assms by (auto simp: extract_data_closed split: if_splits)

lemma extract_data_returns:
  assumes "list_all batch_ok bs" and "edges bs \<noteq> []"
    and "fst ` set (edges bs) = set (elements bs) \<times> set (elements bs)"
    and "set (endpoints (reference_edges bs)) \<subseteq> set (elements bs)"
  shows "extract_data bs =
           Inr \<lparr> zs = elements bs,
                 attn = attention_matrix (edges bs) (elements bs),
                 zs_ref = unique (map fst (reference_edges bs)),
                 counts_ref_square = bond_matrix (reference_edges bs) (elements bs),
                 atoms = foldl count_atoms [] (map z bs),
                 zs_full = map fst (edges bs), attn_full = map snd (edges bs) \<rparr>"
proof -
  have "bs \<noteq> []" using assms(2) by (auto simp: edges_def)
  then show ?thesis
    using assms by (simp add: extract_data_closed)
qed



subsection \<open>Rows of the bond probabilities\<close>

lemma sum_list_divide: "sum_list (map (\<lambda>x. f x / c) xs) = sum_list (map f xs) / (c::real)"
  by (induction xs) (simp_all add: add_divide_distrib)

lemma count_list_pair:
  "count_list rf (a, b) = count_list (map snd (filter (\<lambda>q. fst q = a) rf)) b"
  by (induction rf) auto

lemma sum_count_targets:
  assumes "distinct E" "snd ` set rf \<subseteq> set E"
  shows "sum_list (map (\<lambda>b. count_list rf (a, b)) E) = source_count rf a"
proof -
  let ?t = "map snd (filter (\<lambda>q. fst q = a) rf)"
  have sub: "set ?t \<subseteq> set E" using assms(2) by auto
  have "sum_list (map (\<lambda>b. count_list rf (a, b)) E) = sum_list (map (count_list ?t) E)"
    by (simp only: count_list_pair[of rf a])
  also have "\<dots> = sum (count_list ?t) (set E)"
    by (rule sum_list_distinct_conv_sum_set[OF assms(1)])
  also have "\<dots> = length ?t"
    by (rule sum_count_set[OF sub]) simp
  finally show ?thesis by (simp add: source_count_def)
qed

lemma bond_cell_ratio:
  "bond_cell rf a b = real (count_list rf (a, b)) / real (source_count rf a)"
  by (simp add: bond_cell_def count_list_0_iff)

lemma bond_row_sum:
  assumes "distinct E" "snd ` set rf \<subseteq> set E" "0 < source_count rf a"
  shows "sum_list (map (\<lambda>b. bond_cell rf a b) E) = 1"
proof -
  have "sum_list (map (\<lambda>b. bond_cell rf a b) E)
      = sum_list (map (\<lambda>b. real (count_list rf (a, b))) E) / real (source_count rf a)"
    by (simp only: bond_cell_ratio sum_list_divide)
  also have "sum_list (map (\<lambda>b. real (count_list rf (a, b))) E) = real (source_count rf a)"
    using sum_count_targets[OF assms(1,2), of a] by (simp flip: real_sum_list)
  finally show ?thesis using assms(3) by simp
qed

lemma row_total_normalize:
  assumes "a \<noteq> e"
  shows "row_total u (normalize_row u (map f u) e) a = row_total u (map f u) a"
proof -
  let ?g = "\<lambda>p. if fst p = e then f p / row_total u (map f u) e else f p"
  have "map ?g (filter (\<lambda>p. fst p = a) u) = map f (filter (\<lambda>p. fst p = a) u)"
    using assms by (intro map_cong refl) auto
  then show ?thesis
    by (simp only: normalize_row_map row_total_map)
qed

lemma divisors_map:
  "distinct es \<Longrightarrow>
   divisors u (map f u) es =
     map (row_total u (map f u)) (filter (\<lambda>e. list_ex (\<lambda>p. fst p = e) u) es)"
proof (induction es arbitrary: f)
  case Nil
  then show ?case by simp
next
  case (Cons e es)
  let ?g = "\<lambda>p. if fst p = e then f p / row_total u (map f u) e else f p"
  have d: "distinct es" and ne: "e \<notin> set es" using Cons.prems by auto
  have "divisors u (normalize_row u (map f u) e) es = divisors u (map ?g u) es"
    by (simp only: normalize_row_map)
  also have "\<dots> = map (row_total u (map ?g u)) (filter (\<lambda>e. list_ex (\<lambda>p. fst p = e) u) es)"
    by (rule Cons.IH[OF d])
  also have "\<dots> = map (row_total u (map f u)) (filter (\<lambda>e. list_ex (\<lambda>p. fst p = e) u) es)"
  proof (intro map_cong refl)
    fix a assume "a \<in> set (filter (\<lambda>e. list_ex (\<lambda>p. fst p = e) u) es)"
    then have "a \<noteq> e" using ne by auto
    from row_total_normalize[OF this, of u f]
    show "row_total u (map ?g u) a = row_total u (map f u) a"
      by (simp only: normalize_row_map)
  qed
  finally show ?case by simp
qed

lemma divisors_positive:
  "list_all (\<lambda>d. 0 < d)
     (divisors (unique rf) (map real (unique_counts rf)) (unique (endpoints (unique rf))))"
proof -
  have c: "map real (unique_counts rf) = map (\<lambda>p. real (count_list rf p)) (unique rf)"
    by (simp add: unique_counts_def)
  have pos: "0 < source_count rf e" if "list_ex (\<lambda>p. fst p = e) (unique rf)" for e
  proof -
    from that obtain p where "p \<in> set rf" "fst p = e"
      by (auto simp: list_ex_iff unique_set)
    then have "filter (\<lambda>q. fst q = e) rf \<noteq> []"
      by (auto simp: filter_empty_conv)
    then show ?thesis by (simp add: source_count_def)
  qed
  show ?thesis
    unfolding c divisors_map[OF unique_distinct] row_total_counts
    using pos by (simp add: list_all_iff)
qed

subsection \<open>Dependence on the multiset of edges only\<close>

lemma mset_concat_map: "mset (concat (map f xs)) = (\<Sum>x\<in>#mset xs. mset (f x))"
  by (induction xs) simp_all

lemma sum_list_mset_cong:
  fixes g :: "'a \<Rightarrow> nat"
  shows "mset xs = mset ys \<Longrightarrow> sum_list (map g xs) = sum_list (map g ys)"
  by (metis mset_map sum_mset_sum_list)

lemma mean_mset_cong: "mset ws = mset ws' \<Longrightarrow> mean ws = mean ws'"
  unfolding mean_def by (metis size_mset sum_mset_sum_list)

lemma pair_weights_mset:
  "mset (pair_weights es a b) = image_mset snd (filter_mset (\<lambda>(p, w). p = (a, b)) (mset es))"
  by (simp add: pair_weights_def)

lemma attention_matrix_mset_cong:
  "mset es = mset es' \<Longrightarrow> attention_matrix es E = attention_matrix es' E"
  unfolding attention_matrix_def
  by (intro map_cong refl mean_mset_cong) (simp add: pair_weights_mset)

lemma source_count_mset: "source_count rf a = size (filter_mset (\<lambda>q. fst q = a) (mset rf))"
  by (simp add: source_count_def flip: mset_filter)

lemma bond_matrix_mset_cong:
  assumes "mset rf = mset rf'"
  shows "bond_matrix rf E = bond_matrix rf' E"
proof -
  have "set rf = set rf'" using assms by (rule mset_eq_setD)
  moreover have "count_list rf p = count_list rf' p" for p
    using assms by (metis count_mset)
  moreover have "source_count rf a = source_count rf' a" for a
    using assms by (simp add: source_count_mset)
  ultimately show ?thesis
    by (simp add: bond_matrix_def bond_cell_def)
qed

lemma elements_mset_cong:
  assumes "mset (edges bs) = mset (edges bs')"
  shows "elements bs = elements bs'"
proof -
  have "set (edges bs) = set (edges bs')" using assms by (rule mset_eq_setD)
  then show ?thesis
    unfolding elements_def by (intro unique_cong) (simp add: endpoints_set)
qed

lemma atoms_map_of:
  "map_of (foldl count_atoms [] (map z bs)) k =
     (if k \<in> (\<Union>b\<in>set bs. set (z b))
      then Some (int (sum_list (map (\<lambda>b. count_list (z b) k) bs))) else None)"
proof -
  let ?d = "foldl count_atoms [] (map z bs)"
  have D: "distinct (map fst ([] :: (int \<times> int) list))" by simp
  note F = foldl_count_atoms[OF D, of "map z bs"]
  have keys: "fst ` set ?d = (\<Union>b\<in>set bs. set (z b))" using F by simp
  have val: "lookup0 ?d k = int (sum_list (map (\<lambda>b. count_list (z b) k) bs))"
    using F by (simp add: comp_def lookup0_def)
  show ?thesis
  proof (cases "k \<in> fst ` set ?d")
    case True
    then obtain v where "map_of ?d k = Some v"
      by (metis map_of_eq_None_iff not_Some_eq)
    with val True keys show ?thesis by (simp add: lookup0_def)
  next
    case False
    then have "map_of ?d k = None" by (simp add: map_of_eq_None_iff)
    with False keys show ?thesis by simp
  qed
qed

lemma atoms_mset_cong:
  assumes "mset bs = mset bs'"
  shows "map_of (foldl count_atoms [] (map z bs)) = map_of (foldl count_atoms [] (map z bs'))"
proof
  fix k
  have "set bs = set bs'" using assms by (rule mset_eq_setD)
  moreover have "sum_list (map (\<lambda>b. count_list (z b) k) bs) = sum_list (map (\<lambda>b. count_list (z b) k) bs')"
    using assms by (rule sum_list_mset_cong)
  ultimately show "map_of (foldl count_atoms [] (map z bs)) k = map_of (foldl count_atoms [] (map z bs')) k"
    by (simp only: atoms_map_of)
qed

lemma edges_mset_cong:
  assumes "mset bs = mset bs'"
  shows "mset (edges bs) = mset (edges bs')"
    and "mset (reference_edges bs) = mset (reference_edges bs')"
  using assms by (simp_all add: edges_def reference_edges_def mset_concat_map)

subsection \<open>The distance curve\<close>

lemma averaged_nth:
  assumes "k < length xs"
  shows "averaged w xs ! k = forward_mean w xs (Suc k)"
proof (cases "k + w < length xs")
  case True
  then have "averaged w xs ! k = rolling_mean w xs ! (k + w)"
    using assms by (simp add: averaged_def shift_left_def rolling_mean_def)
  also have "\<dots> = forward_mean w xs (Suc k)"
    using True by (simp add: rolling_mean_def forward_mean_def)
  finally show ?thesis .
next
  case False
  then show ?thesis
    using assms by (simp add: averaged_def shift_left_def rolling_mean_def forward_mean_def)
qed

lemma length_averaged: "length (averaged w xs) = length xs"
  by (simp add: averaged_def shift_left_def rolling_mean_def)

lemma averaged_eq: "averaged w xs = map (\<lambda>k. forward_mean w xs (Suc k)) [0..<length xs]"
  by (rule nth_equalityI) (simp_all add: length_averaged averaged_nth)

lemma argsort_ok_stable: "argsort_ok stable_argsort"
  by (simp add: argsort_ok_def stable_argsort_def sorted_sort_key flip: map_map)

lemma argsort_ok_tie_reversing: "argsort_ok tie_reversing_argsort"
  by (simp add: argsort_ok_def tie_reversing_argsort_def)

lemma argsort_ok_partitioning: "argsort_ok partitioning_argsort"
  using argsort_ok_stable argsort_ok_tie_reversing
  by (simp add: argsort_ok_def partitioning_argsort_def)

lemma mask_select:
  assumes "length af = length zf" "length ds = length zf"
  shows "map fst (filter snd (zip af (pair_mask z1 z2 zf))) = map fst (selected z1 z2 zf af ds)"
    and "map fst (filter snd (zip ds (pair_mask z1 z2 zf))) = map snd (selected z1 z2 zf af ds)"
proof -
  have l: "length zf = length af" "length af = length ds" using assms by simp_all
  have "map fst (filter snd (zip af (pair_mask z1 z2 zf))) = map fst (selected z1 z2 zf af ds) \<and>
        map fst (filter snd (zip ds (pair_mask z1 z2 zf))) = map snd (selected z1 z2 zf af ds)"
    using l
  proof (induction zf af ds rule: list_induct3)
    case Nil
    then show ?case by (simp add: pair_mask_def selected_def)
  next
    case (Cons p zf a af d ds)
    have "((fst p = z1 \<and> snd p = z2) \<or> (fst p = z2 \<and> snd p = z1)) = ({fst p, snd p} = {z1, z2})"
      by (auto simp: doubleton_eq_iff)
    with Cons.IH show ?case
      by (simp add: pair_mask_def selected_def split_def)
  qed
  then show "map fst (filter snd (zip af (pair_mask z1 z2 zf))) = map fst (selected z1 z2 zf af ds)"
    and "map fst (filter snd (zip ds (pair_mask z1 z2 zf))) = map snd (selected z1 z2 zf af ds)"
    by simp_all
qed

lemma argsort_in_range:
  assumes "argsort_ok argsort"
  shows "set (argsort xs) = {0..<length xs}"
proof -
  have "mset (argsort xs) = mset [0..<length xs]"
    using assms by (simp add: argsort_ok_def)
  then have "set (argsort xs) = set [0..<length xs]"
    by (rule mset_eq_setD)
  then show ?thesis by simp
qed

lemma mset_permuted:
  assumes "mset p = mset [0..<length xs]"
  shows "mset (map ((!) xs) p) = mset xs"
proof -
  have "mset (map ((!) xs) p) = image_mset ((!) xs) (mset p)" by simp
  also have "\<dots> = image_mset ((!) xs) (mset [0..<length xs])" by (simp only: assms)
  also have "\<dots> = mset (map ((!) xs) [0..<length xs])" by simp
  also have "\<dots> = mset xs" by (simp only: map_nth)
  finally show ?thesis .
qed

lemma ordered_props:
  assumes "argsort_ok argsort"
  shows "mset (ordered argsort sel) = mset sel"
    and "sorted (map snd (ordered argsort sel))"
    and "map snd (ordered argsort sel) = sort (map snd sel)"
    and "map fst (ordered argsort sel) = map ((!) (map fst sel)) (argsort (map snd sel))"
    and "length (ordered argsort sel) = length sel"
proof -
  let ?p = "argsort (map snd sel)"
  have p: "mset ?p = mset [0..<length sel]" and s: "sorted (map ((!) (map snd sel)) ?p)"
    using assms unfolding argsort_ok_def by (metis length_map)+
  have r: "set ?p = {0..<length sel}"
    using argsort_in_range[OF assms, of "map snd sel"] by simp
  show m: "mset (ordered argsort sel) = mset sel"
    unfolding ordered_def by (rule mset_permuted[OF p])
  have c: "map snd (ordered argsort sel) = map ((!) (map snd sel)) ?p"
    unfolding ordered_def using r by (simp add: comp_def)
  show so: "sorted (map snd (ordered argsort sel))"
    unfolding c by (rule s)
  have "mset (map snd (ordered argsort sel)) = mset (map snd sel)"
    using m by (metis mset_map)
  then show "map snd (ordered argsort sel) = sort (map snd sel)"
    using so by (metis properties_for_sort)
  show "map fst (ordered argsort sel) = map ((!) (map fst sel)) ?p"
    unfolding ordered_def using r by (simp add: comp_def)
  show "length (ordered argsort sel) = length sel"
    using m by (metis size_mset)
qed

lemma smooth_eq:
  assumes "argsort_ok argsort" "length af = length zf" "length ds = length zf"
  shows "smooth argsort z1 z2 w zf af ds =
     Inr (zip (map snd (ordered argsort (selected z1 z2 zf af ds)))
              (averaged w (map fst (ordered argsort (selected z1 z2 zf af ds)))))"
proof -
  let ?sel = "selected z1 z2 zf af ds"
  note M = mask_select[OF assms(2,3), of z1 z2]
  note O = ordered_props[OF assms(1), of ?sel]
  have r: "list_all (\<lambda>i. i < length (map fst ?sel)) (argsort (map snd ?sel))"
    using argsort_in_range[OF assms(1), of "map snd ?sel"] by (simp add: list_all_iff)
  have l: "length (pair_mask z1 z2 zf) = length zf"
    by (simp add: pair_mask_def)
  show ?thesis
    using assms(2,3) r
    by (simp add: smooth_def bool_mask_def l M gather_def O(3) O(4) Let_def)
qed

section \<open>The properties\<close>



text \<open>
  C1, as amended. Whenever the index tensors point at atoms of their batch, there is an
  attention edge, every ordered pair of observed elements has an attention edge, and
  the reference edges name observed elements only, \<open>extract_data\<close> returns a snapshot.
  Its element set is the sorted sequence of the observed elements, its attention matrix
  is square over it, and the cell \<open>(i, j)\<close> is the arithmetic mean of the weights of
  exactly those attention edges whose source element is \<open>zs ! i\<close> and whose target element
  is \<open>zs ! j\<close>: their sum divided by their number. The weights are taken from the list of
  all edges, so an edge that occurs twice is two samples of the sum and of the divisor;
  the edges are selected by equality of the two integer ids; and at least one edge
  contributes to every cell. Floats are reals here, so the mean is exact.
\<close>

theorem interaction_matrix_mean:
  assumes "list_all batch_ok bs" and "edges bs \<noteq> []"
    and "fst ` set (edges bs) = set (elements bs) \<times> set (elements bs)"
    and "set (endpoints (reference_edges bs)) \<subseteq> set (elements bs)"
  shows "\<exists>r. extract_data bs = Inr r \<and> zs r = elements bs \<and>
           length (attn r) = length (zs r) \<and>
           (\<forall>i<length (zs r). length (attn r ! i) = length (zs r) \<and>
              (\<forall>j<length (zs r).
                 pair_weights (edges bs) (zs r ! i) (zs r ! j) \<noteq> [] \<and>
                 attn r ! i ! j =
                   sum_list (pair_weights (edges bs) (zs r ! i) (zs r ! j)) /
                   real (length (pair_weights (edges bs) (zs r ! i) (zs r ! j))) \<and>
                 pair_weights (edges bs) (zs r ! i) (zs r ! j) =
                   map snd (filter (\<lambda>e. fst (fst e) = zs r ! i \<and> snd (fst e) = zs r ! j)
                              (edges bs))))"
proof -
  let ?r = "\<lparr> zs = elements bs,
              attn = attention_matrix (edges bs) (elements bs),
              zs_ref = unique (map fst (reference_edges bs)),
              counts_ref_square = bond_matrix (reference_edges bs) (elements bs),
              atoms = foldl count_atoms [] (map z bs),
              zs_full = map fst (edges bs), attn_full = map snd (edges bs) \<rparr>"
  have R: "extract_data bs = Inr ?r"
    using assms by (rule extract_data_returns)
  have f: "pair_weights es a b = map snd (filter (\<lambda>e. fst (fst e) = a \<and> snd (fst e) = b) es)"
    for es :: "((int \<times> int) \<times> real) list" and a b
    unfolding pair_weights_def
    by (intro arg_cong[where f = "map snd"] filter_cong refl) (auto simp: split_def prod_eq_iff)
  have ne: "pair_weights (edges bs) (elements bs ! i) (elements bs ! j) \<noteq> []"
    if "i < length (elements bs)" "j < length (elements bs)" for i j
  proof -
    have "(elements bs ! i, elements bs ! j) \<in> fst ` set (edges bs)"
      unfolding assms(3) using that by simp
    then show ?thesis by (rule pair_weights_nonempty)
  qed
  have "zs ?r = elements bs \<and>
           length (attn ?r) = length (zs ?r) \<and>
           (\<forall>i<length (zs ?r). length (attn ?r ! i) = length (zs ?r) \<and>
              (\<forall>j<length (zs ?r).
                 pair_weights (edges bs) (zs ?r ! i) (zs ?r ! j) \<noteq> [] \<and>
                 attn ?r ! i ! j =
                   sum_list (pair_weights (edges bs) (zs ?r ! i) (zs ?r ! j)) /
                   real (length (pair_weights (edges bs) (zs ?r ! i) (zs ?r ! j))) \<and>
                 pair_weights (edges bs) (zs ?r ! i) (zs ?r ! j) =
                   map snd (filter (\<lambda>e. fst (fst e) = zs ?r ! i \<and> snd (fst e) = zs ?r ! j)
                              (edges bs))))"
    using ne f by (simp add: attention_matrix_def mean_def)
  with R show ?thesis by blast
qed

theorem interaction_matrix_mean_witness:
  "list_all batch_ok merged_batches \<and> edges merged_batches \<noteq> [] \<and>
   fst ` set (edges merged_batches) = set (elements merged_batches) \<times> set (elements merged_batches) \<and>
   set (endpoints (reference_edges merged_batches)) \<subseteq> set (elements merged_batches) \<and>
   pair_weights (edges merged_batches) 6 6 = [1 / 2, 1 / 2] \<and>
   pair_weights (edges merged_batches) 1 6 = [2 / 5, 1 / 5] \<and>
   (\<exists>r. extract_data merged_batches = Inr r \<and> zs r = [1, 6] \<and>
        attn r ! 1 ! 1 = (1 / 2 + 1 / 2) / 2 \<and> attn r ! 0 ! 1 = (2 / 5 + 1 / 5) / 2)"
proof -
  have ok: "list_all batch_ok merged_batches"
    by (simp add: merged_batches_def batch_ok_def)
  have e: "edges merged_batches = [((6, 6), 1 / 2), ((1, 1), 1), ((1, 6), 2 / 5), ((1, 6), 1 / 5),
              ((6, 6), 1 / 2), ((6, 1), 3 / 5)]"
    by (simp add: edges_def batch_edges_def merged_batches_def)
  have rf: "reference_edges merged_batches = [(1, 1), (1, 6), (1, 6)]"
    by (simp add: reference_edges_def batch_reference_edges_def merged_batches_def)
  have el: "elements merged_batches = [1, 6]"
    by (simp add: elements_def e endpoints_def unique_def)
  have ne: "edges merged_batches \<noteq> []" by (simp add: e)
  have full: "fst ` set (edges merged_batches) =
      set (elements merged_batches) \<times> set (elements merged_batches)"
    by (auto simp: e el)
  have sub: "set (endpoints (reference_edges merged_batches)) \<subseteq> set (elements merged_batches)"
    by (simp add: rf el endpoints_def)
  have p: "pair_weights (edges merged_batches) 6 6 = [1 / 2, 1 / 2]"
          "pair_weights (edges merged_batches) 1 6 = [2 / 5, 1 / 5]"
    by (simp_all add: pair_weights_def e)
  from interaction_matrix_mean[OF ok ne full sub] obtain r where
    r: "extract_data merged_batches = Inr r" and z: "zs r = elements merged_batches"
    and c: "\<forall>i<length (zs r). length (attn r ! i) = length (zs r) \<and>
              (\<forall>j<length (zs r).
                 pair_weights (edges merged_batches) (zs r ! i) (zs r ! j) \<noteq> [] \<and>
                 attn r ! i ! j =
                   sum_list (pair_weights (edges merged_batches) (zs r ! i) (zs r ! j)) /
                   real (length (pair_weights (edges merged_batches) (zs r ! i) (zs r ! j))) \<and>
                 pair_weights (edges merged_batches) (zs r ! i) (zs r ! j) =
                   map snd (filter (\<lambda>e. fst (fst e) = zs r ! i \<and> snd (fst e) = zs r ! j)
                              (edges merged_batches)))"
    by blast
  have z2: "zs r = [1, 6]" using z el by simp
  have i1: "(1::nat) < length (zs r)" and i0: "(0::nat) < length (zs r)"
    by (simp_all add: z2)
  have a11: "attn r ! 1 ! 1 = (1 / 2 + 1 / 2) / 2"
    using c[rule_format, OF i1, THEN conjunct2, rule_format, OF i1] by (simp add: z2 p)
  have a01: "attn r ! 0 ! 1 = (2 / 5 + 1 / 5) / 2"
    using c[rule_format, OF i0, THEN conjunct2, rule_format, OF i1] by (simp add: z2 p)
  show ?thesis
    using ok ne full sub p r z2 a11 a01 by blast
qed

text \<open>
  C1 as stated, for every finite multiset of edges, fails on the edge set of the
  specification's own scenario: the attention edges (H,C,0.2), (H,C,0.4), (C,H,0.6) have
  the weights 0.2 and 0.4 for the pair (H,C), whose mean 0.3 the claim puts into a cell,
  and \<open>extract_data\<close> raises the shape error and returns no matrix.
\<close>

theorem interaction_matrix_scenario_counterexample:
  "list_all batch_ok scenario_batches \<and>
   pair_weights (edges scenario_batches) 1 6 = [1 / 5, 2 / 5] \<and>
   extract_data scenario_batches = Inl ShapeError"
  by code_simp

text \<open>
  C2, as amended. Whenever \<open>extract_data\<close> returns a snapshot, the element set \<open>zs\<close> is
  the sorted sequence of the distinct element ids at the end points of the attention
  edges; every element id of a reference edge is among them, so \<open>zs\<close> is also the sorted
  sequence of the distinct ids over attention and reference edges together. On the
  scenario of the specification no snapshot is returned: the reshape raises.
\<close>

theorem element_set_sorted_distinct:
  assumes "extract_data bs = Inr r"
  shows "zs r = unique (endpoints (map fst (edges bs))) \<and>
         zs r = unique (endpoints (map fst (edges bs)) @ endpoints (reference_edges bs)) \<and>
         sorted (zs r) \<and> distinct (zs r) \<and>
         set (zs r) = set (endpoints (map fst (edges bs))) \<union> set (endpoints (reference_edges bs)) \<and>
         extract_data scenario_batches = Inl ShapeError"
proof -
  note R = extract_data_Inr[OF assms]
  have s: "set (endpoints (map fst (edges bs)) @ endpoints (reference_edges bs))
         = set (endpoints (map fst (edges bs)))"
    using R(6) by (auto simp: elements_def unique_set)
  have "extract_data scenario_batches = Inl ShapeError"
    by code_simp
  then show ?thesis
    using unique_cong[OF s] s
    by (simp add: R(1) elements_def unique_sorted unique_distinct unique_set)
qed

theorem element_set_sorted_distinct_witness:
  "extract_data example_batches = Inr example_snapshot \<and>
   zs example_snapshot = unique (endpoints (map fst (edges example_batches)) @
                                 endpoints (reference_edges example_batches)) \<and>
   zs example_snapshot = [1, 6]"
proof -
  have h: "extract_data example_batches = Inr example_snapshot"
    by code_simp
  have a: "zs example_snapshot = unique (endpoints (map fst (edges example_batches)) @
                                 endpoints (reference_edges example_batches))"
    using element_set_sorted_distinct[OF h] by blast
  have b: "zs example_snapshot = [1, 6]"
    by (simp add: example_snapshot_def)
  show ?thesis using h a b by blast
qed

text \<open>
  C2 as stated fails on its own scenario: the attention edges (H,C), (H,C), (C,H) have two
  distinct columns over two elements, the reshape to \<open>2 \<times> 2 \<times> 2\<close> is refused, and no
  element set is produced. With the pairs (H,H) and (C,C) added the reshape passes, and
  the reference edge (H,O) then fails the lookup in \<open>z2idx\<close>, which has the elements of
  the attention edges only: oxygen is not added to the element set.
\<close>

theorem element_set_scenario_counterexample:
  "extract_data scenario_batches = Inl ShapeError \<and>
   edges oxygen_reference_batches =
     [((1, 1), 1), ((1, 6), 2 / 10), ((1, 6), 4 / 10), ((6, 1), 6 / 10), ((6, 6), 1)] \<and>
   reference_edges oxygen_reference_batches = [(1, 6), (1, 6), (1, 8)] \<and>
   extract_data oxygen_reference_batches = Inl KeyError"
  by code_simp

text \<open>
  C10. The reshape of line 127 needs every ordered pair of observed elements among the
  attention edges: a snapshot is returned only if each pair over the element set has an
  edge, and when the loop has run through and some pair of two observed elements has no
  attention edge, \<open>extract_data\<close> raises the shape error.
\<close>

theorem missing_pair_shape_error:
  "(extract_data bs = Inr r \<longrightarrow>
      (\<forall>a\<in>set (zs r). \<forall>b\<in>set (zs r). (a, b) \<in> fst ` set (edges bs))) \<and>
   (list_all batch_ok bs \<and> a \<in> set (elements bs) \<and> b \<in> set (elements bs) \<and>
      (a, b) \<notin> fst ` set (edges bs) \<longrightarrow> extract_data bs = Inl ShapeError)"
proof (intro conjI impI)
  assume "extract_data bs = Inr r"
  from extract_data_Inr[OF this]
  show "\<forall>a\<in>set (zs r). \<forall>b\<in>set (zs r). (a, b) \<in> fst ` set (edges bs)"
    by simp
next
  assume A: "list_all batch_ok bs \<and> a \<in> set (elements bs) \<and> b \<in> set (elements bs) \<and>
      (a, b) \<notin> fst ` set (edges bs)"
  then have "edges bs \<noteq> []"
    by (auto simp: elements_def unique_set endpoints_def)
  then have "bs \<noteq> []"
    by (auto simp: edges_def)
  moreover have "fst ` set (edges bs) \<noteq> set (elements bs) \<times> set (elements bs)"
    using A by blast
  ultimately show "extract_data bs = Inl ShapeError"
    using A by (simp add: extract_data_closed)
qed

theorem missing_pair_shape_error_witness:
  "extract_data example_batches = Inr example_snapshot \<and>
   (6, 1) \<in> fst ` set (edges example_batches) \<and>
   list_all batch_ok scenario_batches \<and>
   1 \<in> set (elements scenario_batches) \<and>
   (1, 1) \<notin> fst ` set (edges scenario_batches) \<and>
   extract_data scenario_batches = Inl ShapeError"
proof -
  have h: "extract_data example_batches = Inr example_snapshot"
    by code_simp
  have z: "set (zs example_snapshot) = {1, 6}" by (simp add: example_snapshot_def)
  have 1: "(6, 1) \<in> fst ` set (edges example_batches)"
    using missing_pair_shape_error[of example_batches example_snapshot 0 0] h z by blast
  have ok: "list_all batch_ok scenario_batches"
    by (simp add: scenario_batches_def batch_ok_def)
  have e: "edges scenario_batches = [((1, 6), 2 / 10), ((1, 6), 4 / 10), ((6, 1), 6 / 10)]"
    by (simp add: edges_def batch_edges_def scenario_batches_def)
  have el: "1 \<in> set (elements scenario_batches)"
    by (simp add: elements_def unique_set endpoints_def e)
  have no: "(1, 1) \<notin> fst ` set (edges scenario_batches)"
    by (simp add: e)
  have 2: "extract_data scenario_batches = Inl ShapeError"
    using missing_pair_shape_error[of scenario_batches example_snapshot 1 1] ok el no by blast
  show ?thesis using h 1 ok el no 2 by blast
qed

text \<open>
  C3, as amended. Whenever \<open>extract_data\<close> returns a snapshot, every cell of the
  attention matrix has at least one contributing edge (an input that would leave a cell
  without one is refused, see C10); a row of the bond probabilities whose element has no
  outgoing reference edge is stored as zeros, the matrix having no other marker; and
  every division the normalisation loop performs has a positive divisor.
\<close>

theorem undefined_cells_policy:
  assumes "extract_data bs = Inr r"
  shows "(\<forall>i<length (zs r). \<forall>j<length (zs r).
            pair_weights (edges bs) (zs r ! i) (zs r ! j) \<noteq> []) \<and>
         (\<forall>i<length (zs r). source_count (reference_edges bs) (zs r ! i) = 0 \<longrightarrow>
            counts_ref_square r ! i = replicate (length (zs r)) 0) \<and>
         list_all (\<lambda>d. 0 < d)
           (divisors (unique (reference_edges bs)) (map real (unique_counts (reference_edges bs)))
              (unique (endpoints (unique (reference_edges bs)))))"
proof (intro conjI allI impI)
  note R = extract_data_Inr[OF assms]
  fix i j assume "i < length (zs r)" "j < length (zs r)"
  then have "(zs r ! i, zs r ! j) \<in> fst ` set (edges bs)"
    unfolding R(5) by (simp add: R(1))
  then show "pair_weights (edges bs) (zs r ! i) (zs r ! j) \<noteq> []"
    by (rule pair_weights_nonempty)
next
  note R = extract_data_Inr[OF assms]
  fix i assume i: "i < length (zs r)" and 0: "source_count (reference_edges bs) (zs r ! i) = 0"
  have cell0: "bond_cell (reference_edges bs) (zs r ! i) b = 0" for b
  proof -
    have "filter (\<lambda>q. fst q = zs r ! i) (reference_edges bs) = []"
      using 0 by (simp add: source_count_def)
    then have "(zs r ! i, b) \<notin> set (reference_edges bs)"
      by (auto simp: filter_empty_conv)
    then show ?thesis by (simp add: bond_cell_def)
  qed
  have "map (\<lambda>b. bond_cell (reference_edges bs) (zs r ! i) b) (zs r) = replicate (length (zs r)) 0"
    by (rule nth_equalityI) (simp_all add: cell0)
  then show "counts_ref_square r ! i = replicate (length (zs r)) 0"
    using i by (simp add: R(1) R(3) bond_matrix_def)
next
  show "list_all (\<lambda>d. 0 < d)
           (divisors (unique (reference_edges bs)) (map real (unique_counts (reference_edges bs)))
              (unique (endpoints (unique (reference_edges bs)))))"
    by (rule divisors_positive)
qed

theorem undefined_cells_policy_witness:
  "extract_data example_batches = Inr example_snapshot \<and>
   pair_weights (edges example_batches) 6 1 \<noteq> [] \<and>
   source_count (reference_edges example_batches) 6 = 0 \<and>
   counts_ref_square example_snapshot ! 1 = replicate 2 0 \<and>
   divisors (unique (reference_edges example_batches))
     (map real (unique_counts (reference_edges example_batches)))
     (unique (endpoints (unique (reference_edges example_batches)))) = [3]"
proof -
  have h: "extract_data example_batches = Inr example_snapshot"
    by code_simp
  have z: "zs example_snapshot = [1, 6]" by (simp add: example_snapshot_def)
  have rf: "reference_edges example_batches = [(1, 6), (1, 6), (1, 1)]"
    by (simp add: reference_edges_def batch_reference_edges_def example_batches_def)
  have s: "source_count (reference_edges example_batches) 6 = 0"
    by (simp add: rf source_count_def)
  note T = undefined_cells_policy[OF h]
  have a: "pair_weights (edges example_batches) 6 1 \<noteq> []"
    using T z by (metis One_nat_def length_Cons list.size(3) nth_Cons_0 nth_Cons_Suc zero_less_Suc lessI)
  have b: "counts_ref_square example_snapshot ! 1 = replicate 2 0"
    using T z s by (metis One_nat_def Suc_1 length_Cons list.size(3) nth_Cons_0 nth_Cons_Suc lessI)
  have d: "divisors (unique (reference_edges example_batches))
     (map real (unique_counts (reference_edges example_batches)))
     (unique (endpoints (unique (reference_edges example_batches)))) = [3]"
    by code_simp
  show ?thesis using h a s b d by blast
qed

text \<open>
  C3 as stated fails. In the example no reference edge leaves carbon, and the carbon row
  of the bond probabilities is the zeros that \<^verbatim>\<open>torch.zeros\<close> put there. In the scenario
  no attention edge goes from hydrogen to hydrogen, and the result is the shape error, not
  a matrix with a flagged cell.
\<close>

theorem undefined_cells_counterexample:
  "extract_data example_batches = Inr example_snapshot \<and>
   zs example_snapshot ! 1 = 6 \<and>
   source_count (reference_edges example_batches) 6 = 0 \<and>
   counts_ref_square example_snapshot ! 1 = [0, 0] \<and>
   pair_weights (edges scenario_batches) 1 1 = [] \<and>
   extract_data scenario_batches = Inl ShapeError"
  by code_simp

text \<open>
  C4, as amended. Whenever the index tensors point at atoms of their batch, there is an
  attention edge, every ordered pair of observed elements has an attention edge, and
  the reference edges name observed elements only, \<open>extract_data\<close> returns a snapshot
  whose bond probabilities are square over the element set; and in every row whose
  element \<open>zs ! i\<close> has at least one outgoing reference edge, the cell \<open>(i, j)\<close> is the
  number of reference edges from \<open>zs ! i\<close> to \<open>zs ! j\<close> divided by the number of reference
  edges that leave \<open>zs ! i\<close>, and the row adds up to one (exactly, floats being reals).
\<close>

theorem bond_probability_rows:
  assumes "list_all batch_ok bs" and "edges bs \<noteq> []"
    and "fst ` set (edges bs) = set (elements bs) \<times> set (elements bs)"
    and "set (endpoints (reference_edges bs)) \<subseteq> set (elements bs)"
    and "i < length (elements bs)"
    and "0 < source_count (reference_edges bs) (elements bs ! i)"
  shows "\<exists>r. extract_data bs = Inr r \<and> zs r = elements bs \<and>
           length (counts_ref_square r) = length (zs r) \<and>
           length (counts_ref_square r ! i) = length (zs r) \<and>
           (\<forall>j<length (zs r). counts_ref_square r ! i ! j =
               real (count_list (reference_edges bs) (zs r ! i, zs r ! j)) /
               real (source_count (reference_edges bs) (zs r ! i))) \<and>
           sum_list (counts_ref_square r ! i) = 1"
proof -
  let ?r = "\<lparr> zs = elements bs,
              attn = attention_matrix (edges bs) (elements bs),
              zs_ref = unique (map fst (reference_edges bs)),
              counts_ref_square = bond_matrix (reference_edges bs) (elements bs),
              atoms = foldl count_atoms [] (map z bs),
              zs_full = map fst (edges bs), attn_full = map snd (edges bs) \<rparr>"
  have R: "extract_data bs = Inr ?r"
    using assms(1-4) by (rule extract_data_returns)
  have d: "distinct (elements bs)" by (simp add: elements_def unique_distinct)
  have t: "snd ` set (reference_edges bs) \<subseteq> set (elements bs)"
    using assms(4) by (auto simp: endpoints_set)
  have row: "counts_ref_square ?r ! i =
      map (\<lambda>b. bond_cell (reference_edges bs) (elements bs ! i) b) (elements bs)"
    using assms(5) by (simp add: bond_matrix_def)
  have one: "sum_list (counts_ref_square ?r ! i) = 1"
    unfolding row using assms(6) by (intro bond_row_sum d t)
  have "zs ?r = elements bs \<and>
           length (counts_ref_square ?r) = length (zs ?r) \<and>
           length (counts_ref_square ?r ! i) = length (zs ?r) \<and>
           (\<forall>j<length (zs ?r). counts_ref_square ?r ! i ! j =
               real (count_list (reference_edges bs) (zs ?r ! i, zs ?r ! j)) /
               real (source_count (reference_edges bs) (zs ?r ! i))) \<and>
           sum_list (counts_ref_square ?r ! i) = 1"
    using one assms(5) by (simp add: row bond_matrix_def bond_cell_ratio)
  with R show ?thesis by blast
qed

theorem bond_probability_rows_witness:
  "list_all batch_ok merged_batches \<and> edges merged_batches \<noteq> [] \<and>
   fst ` set (edges merged_batches) = set (elements merged_batches) \<times> set (elements merged_batches) \<and>
   set (endpoints (reference_edges merged_batches)) \<subseteq> set (elements merged_batches) \<and>
   elements merged_batches ! 0 = 1 \<and>
   source_count (reference_edges merged_batches) 1 = 3 \<and>
   (\<exists>r. extract_data merged_batches = Inr r \<and> zs r = [1, 6] \<and>
        counts_ref_square r ! 0 ! 1 = 2 / 3 \<and> sum_list (counts_ref_square r ! 0) = 1)"
proof -
  have ok: "list_all batch_ok merged_batches"
    by (simp add: merged_batches_def batch_ok_def)
  have e: "edges merged_batches = [((6, 6), 1 / 2), ((1, 1), 1), ((1, 6), 2 / 5), ((1, 6), 1 / 5),
              ((6, 6), 1 / 2), ((6, 1), 3 / 5)]"
    by (simp add: edges_def batch_edges_def merged_batches_def)
  have rf: "reference_edges merged_batches = [(1, 1), (1, 6), (1, 6)]"
    by (simp add: reference_edges_def batch_reference_edges_def merged_batches_def)
  have el: "elements merged_batches = [1, 6]"
    by (simp add: elements_def e endpoints_def unique_def)
  have ne: "edges merged_batches \<noteq> []" by (simp add: e)
  have full: "fst ` set (edges merged_batches) =
      set (elements merged_batches) \<times> set (elements merged_batches)"
    by (auto simp: e el)
  have sub: "set (endpoints (reference_edges merged_batches)) \<subseteq> set (elements merged_batches)"
    by (simp add: rf el endpoints_def)
  have i: "0 < length (elements merged_batches)" by (simp add: el)
  have e0: "elements merged_batches ! 0 = 1" by (simp add: el)
  have s: "source_count (reference_edges merged_batches) 1 = 3"
    by (simp add: rf source_count_def)
  have c: "0 < source_count (reference_edges merged_batches) (elements merged_batches ! 0)"
    by (simp add: e0 s)
  from bond_probability_rows[OF ok ne full sub i c] obtain r where
    r: "extract_data merged_batches = Inr r" and z: "zs r = elements merged_batches"
    and cell: "\<forall>j<length (zs r). counts_ref_square r ! 0 ! j =
               real (count_list (reference_edges merged_batches) (zs r ! 0, zs r ! j)) /
               real (source_count (reference_edges merged_batches) (zs r ! 0))"
    and one: "sum_list (counts_ref_square r ! 0) = 1"
    by blast
  have z2: "zs r = [1, 6]" using z el by simp
  have j: "(1::nat) < length (zs r)" by (simp add: z2)
  have a: "counts_ref_square r ! 0 ! 1 = 2 / 3"
    using cell[rule_format, OF j] by (simp add: z2 rf source_count_def)
  show ?thesis
    using ok ne full sub e0 s r z2 a one by blast
qed

text \<open>
  C4 as stated speaks of every row whose source element has a reference edge. In the
  scenario of the specification hydrogen has three, among them (H,O), and no row
  exists: with the scenario's attention edges the reshape raises, and with the pairs
  (H,H) and (C,C) added the lookup of oxygen in \<open>z2idx\<close> raises.
\<close>

theorem bond_probability_scenario_counterexample:
  "reference_edges scenario_batches = [(1, 6), (1, 6), (1, 8)] \<and>
   source_count (reference_edges scenario_batches) 1 = 3 \<and>
   extract_data scenario_batches = Inl ShapeError \<and>
   reference_edges oxygen_reference_batches = [(1, 6), (1, 6), (1, 8)] \<and>
   list_all batch_ok oxygen_reference_batches \<and>
   extract_data oxygen_reference_batches = Inl KeyError"
  by code_simp

text \<open>
  C9. \<open>extract_data\<close> is a function, so two runs on one list of batches agree. Beyond
  that: two lists with the same batches in any order give the same exception, or
  snapshots with the same element set, the same two matrices, the same support of the
  bond probabilities and the same atom count for every element; and two inputs, however
  cut into batches, whose attention edges and whose reference edges are the same
  multisets give, when both return, the same element set and matrices. The matrices have
  no undefined cells, so equal matrices are all there is to equal masks; the values are
  equal exactly, floats being reals.
\<close>

theorem batch_order_determinism:
  "(mset bs = mset bs' \<longrightarrow>
      map_sum id (\<lambda>r. (outputs r, map_of (atoms r))) (extract_data bs) =
      map_sum id (\<lambda>r. (outputs r, map_of (atoms r))) (extract_data bs')) \<and>
   (extract_data bs = Inr r \<and> extract_data bs' = Inr r' \<and>
      mset (edges bs) = mset (edges bs') \<and>
      mset (reference_edges bs) = mset (reference_edges bs') \<longrightarrow> outputs r = outputs r')"
proof (intro conjI impI)
  assume A: "mset bs = mset bs'"
  note E = edges_mset_cong[OF A]
  have s: "set bs = set bs'" using A by (rule mset_eq_setD)
  have 1: "list_all batch_ok bs = list_all batch_ok bs'" by (simp add: list_all_iff s)
  have 2: "(bs = []) = (bs' = [])" using A by (metis mset_zero_iff)
  have 3: "elements bs = elements bs'" using E(1) by (rule elements_mset_cong)
  have 4: "set (edges bs) = set (edges bs')" using E(1) by (rule mset_eq_setD)
  have 5: "(edges bs = []) = (edges bs' = [])" using E(1) by (metis mset_zero_iff)
  have 6: "set (reference_edges bs) = set (reference_edges bs')" using E(2) by (rule mset_eq_setD)
  have 7: "unique (map fst (reference_edges bs)) = unique (map fst (reference_edges bs'))"
    by (rule unique_cong) (simp add: 6)
  have 8: "set (endpoints (reference_edges bs)) = set (endpoints (reference_edges bs'))"
    by (simp add: endpoints_set 6)
  show "map_sum id (\<lambda>r. (outputs r, map_of (atoms r))) (extract_data bs) =
      map_sum id (\<lambda>r. (outputs r, map_of (atoms r))) (extract_data bs')"
    unfolding extract_data_closed 1 2 3 4 5 7 8
    by (simp add: outputs_def attention_matrix_mset_cong[OF E(1)] bond_matrix_mset_cong[OF E(2)]
        atoms_mset_cong[OF A])
next
  assume B: "extract_data bs = Inr r \<and> extract_data bs' = Inr r' \<and>
      mset (edges bs) = mset (edges bs') \<and>
      mset (reference_edges bs) = mset (reference_edges bs')"
  note R = extract_data_Inr[of bs r] extract_data_Inr[of bs' r']
  have 3: "elements bs = elements bs'" using B by (intro elements_mset_cong) simp
  have 6: "set (reference_edges bs) = set (reference_edges bs')" using B by (intro mset_eq_setD) simp
  have 7: "unique (map fst (reference_edges bs)) = unique (map fst (reference_edges bs'))"
    by (rule unique_cong) (simp add: 6)
  show "outputs r = outputs r'"
    using B by (simp add: outputs_def R 3 7 attention_matrix_mset_cong[of "edges bs" "edges bs'"]
        bond_matrix_mset_cong[of "reference_edges bs" "reference_edges bs'"])
qed

theorem batch_order_determinism_witness:
  "mset (rev example_batches) = mset example_batches \<and>
   map_sum id (\<lambda>r. (outputs r, map_of (atoms r))) (extract_data (rev example_batches)) =
     Inr (outputs example_snapshot, map_of (atoms example_snapshot)) \<and>
   mset (edges merged_batches) = mset (edges example_batches) \<and>
   mset (reference_edges merged_batches) = mset (reference_edges example_batches) \<and>
   map_sum id outputs (extract_data merged_batches) = Inr (outputs example_snapshot)"
proof -
  let ?m = "\<lparr> zs = [1, 6], attn = [[1, 3 / 10], [3 / 5, 1 / 2]], zs_ref = [1],
              counts_ref_square = [[1 / 3, 2 / 3], [0, 0]], atoms = [(1, 2), (6, 3)],
              zs_full = [(6, 6), (1, 1), (1, 6), (1, 6), (6, 6), (6, 1)],
              attn_full = [1 / 2, 1, 2 / 5, 1 / 5, 1 / 2, 3 / 5] \<rparr>"
  have h: "extract_data example_batches = Inr example_snapshot"
    by code_simp
  have hm: "extract_data merged_batches = Inr ?m"
    by code_simp
  have p: "mset (rev example_batches) = mset example_batches" by simp
  have a: "map_sum id (\<lambda>r. (outputs r, map_of (atoms r))) (extract_data (rev example_batches)) =
     Inr (outputs example_snapshot, map_of (atoms example_snapshot))"
    using batch_order_determinism[of "rev example_batches" example_batches] p h by simp
  have e: "edges merged_batches = [((6, 6), 1 / 2), ((1, 1), 1), ((1, 6), 2 / 5), ((1, 6), 1 / 5),
              ((6, 6), 1 / 2), ((6, 1), 3 / 5)]"
          "edges example_batches = [((1, 1), 1), ((1, 6), 1 / 5), ((1, 6), 2 / 5), ((6, 1), 3 / 5),
              ((6, 6), 1 / 2), ((6, 6), 1 / 2)]"
    by (simp_all add: edges_def batch_edges_def merged_batches_def example_batches_def)
  have r: "reference_edges merged_batches = [(1, 1), (1, 6), (1, 6)]"
          "reference_edges example_batches = [(1, 6), (1, 6), (1, 1)]"
    by (simp_all add: reference_edges_def batch_reference_edges_def merged_batches_def
        example_batches_def)
  have me: "mset (edges merged_batches) = mset (edges example_batches)"
    unfolding e by simp
  have mr: "mset (reference_edges merged_batches) = mset (reference_edges example_batches)"
    unfolding r by simp
  have "outputs ?m = outputs example_snapshot"
    using batch_order_determinism[of merged_batches example_batches ?m example_snapshot] hm h me mr
    by blast
  then have b: "map_sum id outputs (extract_data merged_batches) = Inr (outputs example_snapshot)"
    by (simp add: hm)
  show ?thesis using p a me mr b by blast
qed

text \<open>
  C5, as amended. The sequence \<open>averaged\<close> of line 220, the right-aligned rolling mean of
  width \<open>w\<close> shifted left by \<open>w\<close> positions, holds at every position \<open>k\<close> the mean of the
  \<open>w\<close> samples that start at position \<open>k + 1\<close>, and nothing when fewer than \<open>w\<close> samples
  follow position \<open>k\<close>, for every sequence and every window. Against the mean that the
  specification centres on the sample's own position it is displaced: the value at
  position \<open>k\<close> is the centred mean of position \<open>k + 1 + w div 2\<close>, and nothing where the
  sequence has no such position.
\<close>

theorem averaged_forward_mean:
  "averaged w xs = map (\<lambda>k. forward_mean w xs (Suc k)) [0..<length xs] \<and>
   (\<forall>k<length xs. averaged w xs ! k =
      (if k + 1 + w div 2 < length xs then centered_mean w xs ! (k + 1 + w div 2) else None))"
proof (intro conjI allI impI)
  show "averaged w xs = map (\<lambda>k. forward_mean w xs (Suc k)) [0..<length xs]"
    by (rule averaged_eq)
next
  fix k assume k: "k < length xs"
  show "averaged w xs ! k =
      (if k + 1 + w div 2 < length xs then centered_mean w xs ! (k + 1 + w div 2) else None)"
  proof (cases "k + 1 + w div 2 < length xs")
    case True
    then show ?thesis
      using k by (simp add: averaged_nth centered_mean_def)
  next
    case False
    have "forward_mean w xs (Suc k) = None"
    proof (cases "w = 0")
      case True
      then show ?thesis by (simp add: forward_mean_def)
    next
      case w: False
      then have "w div 2 < w" by simp
      then have "\<not> Suc k + w \<le> length xs" using False by linarith
      then show ?thesis by (simp add: forward_mean_def)
    qed
    with False k show ?thesis
      by (simp add: averaged_nth)
  qed
qed

theorem averaged_forward_mean_witness:
  "(0::nat) < length [0.2, 0.4, 0.6, 1, 2, 3 :: real] \<and>
   averaged 2 [0.2, 0.4, 0.6, 1, 2, 3] ! 0 = centered_mean 2 [0.2, 0.4, 0.6, 1, 2, 3] ! 2 \<and>
   averaged 2 [0.2, 0.4, 0.6, 1, 2, 3] = [Some (1 / 2), Some (4 / 5), Some (3 / 2), Some (5 / 2), None, None] \<and>
   centered_mean 2 [0.2, 0.4, 0.6, 1, 2, 3] =
     [None, Some (3 / 10), Some (1 / 2), Some (4 / 5), Some (3 / 2), Some (5 / 2)]"
proof -
  have l: "(0::nat) < length [0.2, 0.4, 0.6, 1, 2, 3 :: real]" by simp
  have "averaged 2 [0.2, 0.4, 0.6, 1, 2, 3] ! 0 =
      (if 0 + 1 + 2 div 2 < length [0.2, 0.4, 0.6, 1, 2, 3 :: real]
       then centered_mean 2 [0.2, 0.4, 0.6, 1, 2, 3] ! (0 + 1 + 2 div 2) else None)"
    using averaged_forward_mean[of 2 "[0.2, 0.4, 0.6, 1, 2, 3]", THEN conjunct2, rule_format, OF l] .
  then have a: "averaged 2 [0.2, 0.4, 0.6, 1, 2, 3] ! 0 = centered_mean 2 [0.2, 0.4, 0.6, 1, 2, 3] ! 2"
    by (simp add: numeral_2_eq_2)
  have b: "averaged 2 [0.2, 0.4, 0.6, 1, 2, 3] =
      [Some (1 / 2), Some (4 / 5), Some (3 / 2), Some (5 / 2), None, None]"
    by code_simp
  have c: "centered_mean 2 [0.2, 0.4, 0.6, 1, 2, 3] =
     [None, Some (3 / 10), Some (1 / 2), Some (4 / 5), Some (3 / 2), Some (5 / 2)]"
    by code_simp
  show ?thesis using l a b c by blast
qed

text \<open>
  C5 as stated fails. For the window 1 the mean of the one sample that starts at the
  position itself, shifted by \<open>1 div 2 = 0\<close> positions, is the sample; line 220 reports the
  next sample, and nothing at the last position. For the window 2 the centred mean has a
  value at the last two positions and line 220 at the first.
\<close>

theorem averaged_window_one_counterexample:
  "centered_mean 1 [0.2, 0.4, 0.6] = [Some 0.2, Some 0.4, Some 0.6] \<and>
   averaged 1 [0.2, 0.4, 0.6] = [Some 0.4, Some 0.6, None] \<and>
   centered_mean 2 [0.2, 0.4, 0.6] = [None, Some (3 / 10), Some (1 / 2)] \<and>
   averaged 2 [0.2, 0.4, 0.6] = [Some (1 / 2), None, None]"
  by code_simp

text \<open>
  C6, as amended. For an \<open>argsort\<close> that keeps the library's promise and tensors of one
  length, the curve is computed without an exception and has one point per selected
  sample. The point at position \<open>k\<close> has no value exactly when the window is 0 or fewer
  than \<open>w\<close> samples follow it, \<open>length \<le> k + w\<close>: with \<open>w \<ge> 1\<close> these are the last
  \<open>min w length\<close> positions and no leading position. With at most \<open>w\<close> selected samples no
  point has a value.
\<close>

theorem smoother_defined_positions:
  assumes "argsort_ok argsort" and "length af = length zf" and "length ds = length zf"
  shows "\<exists>out. smooth argsort z1 z2 w zf af ds = Inr out \<and>
           length out = length (selected z1 z2 zf af ds) \<and>
           (\<forall>k<length out. (snd (out ! k) = None) = (w = 0 \<or> length out \<le> k + w)) \<and>
           (length out \<le> w \<longrightarrow> list_all (\<lambda>p. snd p = None) out)"
proof -
  let ?S = "ordered argsort (selected z1 z2 zf af ds)"
  let ?out = "zip (map snd ?S) (averaged w (map fst ?S))"
  note O = ordered_props[OF assms(1), of "selected z1 z2 zf af ds"]
  have len: "length ?out = length (selected z1 z2 zf af ds)"
    by (simp add: length_averaged O(5))
  have cell: "(snd (?out ! k) = None) = (w = 0 \<or> length ?out \<le> k + w)" if "k < length ?out" for k
  proof -
    have k: "k < length (map fst ?S)" using that by (simp add: length_averaged)
    have "snd (?out ! k) = forward_mean w (map fst ?S) (Suc k)"
      using that k by (simp add: averaged_nth length_averaged)
    then show ?thesis
      by (auto simp: forward_mean_def length_averaged)
  qed
  have "list_all (\<lambda>p. snd p = None) ?out" if "length ?out \<le> w"
    unfolding list_all_length using cell that by auto
  then show ?thesis
    using smooth_eq[OF assms, of z1 z2 w] len cell by blast
qed

theorem smoother_defined_positions_witness:
  "argsort_ok stable_argsort \<and>
   length curve_attention = length curve_pairs \<and> length curve_distance = length curve_pairs \<and>
   smooth stable_argsort 1 6 2 curve_pairs curve_attention curve_distance =
     Inr [(1, Some (1 / 2)), (6 / 5, None), (6 / 5, None)] \<and>
   (\<exists>out. smooth stable_argsort 1 6 2 curve_pairs curve_attention curve_distance = Inr out \<and>
      length out = length (selected 1 6 curve_pairs curve_attention curve_distance))"
proof -
  have l: "length curve_attention = length curve_pairs" "length curve_distance = length curve_pairs"
    by (simp_all add: curve_attention_def curve_pairs_def curve_distance_def)
  have v: "smooth stable_argsort 1 6 2 curve_pairs curve_attention curve_distance =
     Inr [(1, Some (1 / 2)), (6 / 5, None), (6 / 5, None)]"
    by code_simp
  have "\<exists>out. smooth stable_argsort 1 6 2 curve_pairs curve_attention curve_distance = Inr out \<and>
      length out = length (selected 1 6 curve_pairs curve_attention curve_distance)"
    using smoother_defined_positions[OF argsort_ok_stable l, of 1 6 2] by blast
  then show ?thesis
    using argsort_ok_stable l v by blast
qed

text \<open>
  C6 as stated fails on the specification's own scenario. With the window 2 the first
  position has a value and the last two have none, where the claim leaves the first and
  the last one without and the middle one with a value; with the window 1 the last
  position has none, where the claim has no undefined position. With the window 3,
  which the three samples do fill, no position has a value.
\<close>

theorem smoother_boundary_counterexample:
  "selected 1 6 curve_pairs curve_attention curve_distance =
     [(1 / 5, 1), (2 / 5, 6 / 5), (3 / 5, 6 / 5)] \<and>
   smooth stable_argsort 1 6 2 curve_pairs curve_attention curve_distance =
     Inr [(1, Some (1 / 2)), (6 / 5, None), (6 / 5, None)] \<and>
   smooth tie_reversing_argsort 1 6 2 curve_pairs curve_attention curve_distance =
     Inr [(1, Some (1 / 2)), (6 / 5, None), (6 / 5, None)] \<and>
   smooth stable_argsort 1 6 1 curve_pairs curve_attention curve_distance =
     Inr [(1, Some (2 / 5)), (6 / 5, Some (3 / 5)), (6 / 5, None)] \<and>
   smooth stable_argsort 1 6 3 curve_pairs curve_attention curve_distance =
     Inr [(1, None), (6 / 5, None), (6 / 5, None)]"
  by code_simp

text \<open>
  C8, as amended. For an \<open>argsort\<close> that keeps the library's promise and tensors of one
  length, the curve is drawn from exactly the samples whose element pair is \<open>(z1, z2)\<close>
  or \<open>(z2, z1)\<close>, put in an order that is a permutation of them with ascending distances:
  the points are the distances in that order with the \<open>averaged\<close> weights in that order.
  Nothing more is said about samples of equal distance.
\<close>

theorem smoother_selects_and_orders:
  assumes "argsort_ok argsort" and "length af = length zf" and "length ds = length zf"
  shows "smooth argsort z1 z2 w zf af ds =
           Inr (zip (map snd (ordered argsort (selected z1 z2 zf af ds)))
                    (averaged w (map fst (ordered argsort (selected z1 z2 zf af ds))))) \<and>
         selected z1 z2 zf af ds =
           map snd (filter (\<lambda>(p, s). p = (z1, z2) \<or> p = (z2, z1)) (zip zf (zip af ds))) \<and>
         mset (ordered argsort (selected z1 z2 zf af ds)) = mset (selected z1 z2 zf af ds) \<and>
         sorted (map snd (ordered argsort (selected z1 z2 zf af ds)))"
proof -
  have "filter (\<lambda>(p, s). {fst p, snd p} = {z1, z2}) (zip zf (zip af ds)) =
        filter (\<lambda>(p, s). p = (z1, z2) \<or> p = (z2, z1)) (zip zf (zip af ds))"
    by (intro filter_cong refl) (auto simp: doubleton_eq_iff)
  then have "selected z1 z2 zf af ds =
           map snd (filter (\<lambda>(p, s). p = (z1, z2) \<or> p = (z2, z1)) (zip zf (zip af ds)))"
    by (simp add: selected_def)
  then show ?thesis
    using smooth_eq[OF assms, of z1 z2 w] ordered_props(1,2)[OF assms(1), of "selected z1 z2 zf af ds"]
    by blast
qed

theorem smoother_selects_and_orders_witness:
  "argsort_ok stable_argsort \<and>
   length curve_attention = length curve_pairs \<and> length curve_distance = length curve_pairs \<and>
   stable_argsort [1, 6 / 5, 6 / 5] = [0, 1, 2] \<and>
   selected 1 6 curve_pairs curve_attention curve_distance =
     [(1 / 5, 1), (2 / 5, 6 / 5), (3 / 5, 6 / 5)] \<and>
   smooth stable_argsort 1 6 1 curve_pairs curve_attention curve_distance =
     Inr (zip (map snd (ordered stable_argsort
                 (selected 1 6 curve_pairs curve_attention curve_distance)))
              (averaged 1 (map fst (ordered stable_argsort
                 (selected 1 6 curve_pairs curve_attention curve_distance))))) \<and>
   mset (ordered stable_argsort (selected 1 6 curve_pairs curve_attention curve_distance)) =
     mset (selected 1 6 curve_pairs curve_attention curve_distance) \<and>
   sorted (map snd (ordered stable_argsort
     (selected 1 6 curve_pairs curve_attention curve_distance)))"
proof -
  have l: "length curve_attention = length curve_pairs" "length curve_distance = length curve_pairs"
    by (simp_all add: curve_attention_def curve_pairs_def curve_distance_def)
  have v: "selected 1 6 curve_pairs curve_attention curve_distance =
     [(1 / 5, 1), (2 / 5, 6 / 5), (3 / 5, 6 / 5)]"
    by code_simp
  have p: "stable_argsort [1, 6 / 5, 6 / 5] = [0, 1, 2]"
    by code_simp
  show ?thesis
    using smoother_selects_and_orders[OF argsort_ok_stable l, of 1 6 1]
      argsort_ok_stable l v p by blast
qed

text \<open>
  C8 as stated asks for a stable sort. Line 220 calls \<^verbatim>\<open>argsort()\<close> without asking for
  one. On seventeen samples that arrive in descending distance, two of them at the same
  distance, the partition round of the library's sort turns the sequence round: the
  positions come back as 16, 15, ..., 0, and the two samples at distance 1.4, which the
  edges have in the order 0.2, 0.25, are read in the order 0.25, 0.2. The curve with the
  window 1 then has the weight 0.25 at distance 1.2 and 0.2 at distance 1.4, where the
  stable order has 0.2 and 0.25.
\<close>

theorem smoother_stable_counterexample:
  "argsort_ok partitioning_argsort \<and>
   length descending_distance = 17 \<and>
   selected 1 6 descending_pairs descending_attention descending_distance ! 3 = (1 / 5, 7 / 5) \<and>
   selected 1 6 descending_pairs descending_attention descending_distance ! 4 = (1 / 4, 7 / 5) \<and>
   partitioning_argsort descending_distance =
     [16, 15, 14, 13, 12, 11, 10, 9, 8, 7, 6, 5, 4, 3, 2, 1, 0] \<and>
   stable_argsort descending_distance =
     [16, 15, 14, 13, 12, 11, 10, 9, 8, 7, 6, 5, 3, 4, 2, 1, 0] \<and>
   ordered partitioning_argsort
     (selected 1 6 descending_pairs descending_attention descending_distance) ! 12 = (1 / 4, 7 / 5) \<and>
   ordered partitioning_argsort
     (selected 1 6 descending_pairs descending_attention descending_distance) ! 13 = (1 / 5, 7 / 5) \<and>
   map_sum id (\<lambda>out. (out ! 11, out ! 12))
     (smooth partitioning_argsort 1 6 1 descending_pairs descending_attention descending_distance) =
     Inr ((6 / 5, Some (1 / 4)), (7 / 5, Some (1 / 5))) \<and>
   map_sum id (\<lambda>out. (out ! 11, out ! 12))
     (smooth stable_argsort 1 6 1 descending_pairs descending_attention descending_distance) =
     Inr ((6 / 5, Some (1 / 5)), (7 / 5, Some (1 / 4)))"
proof -
  have "length descending_distance = 17 \<and>
   selected 1 6 descending_pairs descending_attention descending_distance ! 3 = (1 / 5, 7 / 5) \<and>
   selected 1 6 descending_pairs descending_attention descending_distance ! 4 = (1 / 4, 7 / 5) \<and>
   partitioning_argsort descending_distance =
     [16, 15, 14, 13, 12, 11, 10, 9, 8, 7, 6, 5, 4, 3, 2, 1, 0] \<and>
   stable_argsort descending_distance =
     [16, 15, 14, 13, 12, 11, 10, 9, 8, 7, 6, 5, 3, 4, 2, 1, 0] \<and>
   ordered partitioning_argsort
     (selected 1 6 descending_pairs descending_attention descending_distance) ! 12 = (1 / 4, 7 / 5) \<and>
   ordered partitioning_argsort
     (selected 1 6 descending_pairs descending_attention descending_distance) ! 13 = (1 / 5, 7 / 5) \<and>
   map_sum id (\<lambda>out. (out ! 11, out ! 12))
     (smooth partitioning_argsort 1 6 1 descending_pairs descending_attention descending_distance) =
     Inr ((6 / 5, Some (1 / 4)), (7 / 5, Some (1 / 5))) \<and>
   map_sum id (\<lambda>out. (out ! 11, out ! 12))
     (smooth stable_argsort 1 6 1 descending_pairs descending_attention descending_distance) =
     Inr ((6 / 5, Some (1 / 5)), (7 / 5, Some (1 / 4)))"
    by code_simp
  then show ?thesis
    using argsort_ok_partitioning by blast
qed

end
